theory Spec2Isabelle
  imports Complex_Main
begin

section \<open>Python values used by the statistic scripts\<close>

text \<open>
  The scripts under \<^verbatim>\<open>statistic/\<close> read text files and turn their lines into numbers.
  A text is a \<^typ>\<open>string\<close>; a \<^typ>\<open>char\<close> stands for a code point below 256.  A file's
  content is the text that Python's text layer delivers (decoded, line ends already
  translated to a single line feed).

  A Python \<^verbatim>\<open>float\<close> is modelled by its exact rational value, or one of the three
  special values (the two infinities and not-a-number).  Rounding, overflow and
  underflow of the 64-bit format are not part of the model, and the two zeros are one:
  every statement below about a parsed value is a statement about the exact decimal
  value of the field, and every quotient, sum and difference is the exact one.
\<close>

datatype error = IndexError | ValueError | KeyError | FileNotFoundError | ZeroDivisionError

datatype pyfloat = Fin rat | PInf | NInf | NaN

definition bnd :: "error + 'a \<Rightarrow> ('a \<Rightarrow> error + 'b) \<Rightarrow> error + 'b" where
  "bnd r f = (case r of Inl e \<Rightarrow> Inl e | Inr x \<Rightarrow> f x)"

subsection \<open>Characters and the string methods\<close>

definition LF :: char where
  "LF = CHR 0x0A"

definition ESC :: char where
  "ESC = CHR 0x1B"

definition code :: "char \<Rightarrow> int" where
  "code c = of_char c"

text \<open>\<^verbatim>\<open>str.isspace\<close> on one character, for code points below 256.\<close>

definition py_isspace :: "char \<Rightarrow> bool" where
  "py_isspace c =
     ((9 \<le> code c \<and> code c \<le> 13) \<or> (28 \<le> code c \<and> code c \<le> 32)
      \<or> code c = 133 \<or> code c = 160)"

definition is_digit :: "char \<Rightarrow> bool" where
  "is_digit c = (48 \<le> code c \<and> code c \<le> 57)"

definition digit_val :: "char \<Rightarrow> int" where
  "digit_val c = code c - 48"

definition lower :: "char \<Rightarrow> char" where
  "lower c = (if 65 \<le> code c \<and> code c \<le> 90 then char_of (code c + 32) else c)"

text \<open>\<^verbatim>\<open>s.strip()\<close>\<close>

definition py_strip :: "string \<Rightarrow> string" where
  "py_strip s = rev (dropWhile py_isspace (rev (dropWhile py_isspace s)))"

text \<open>\<^verbatim>\<open>s.startswith(p)\<close>\<close>

fun startswith :: "string \<Rightarrow> string \<Rightarrow> bool" where
  "startswith s [] = True"
| "startswith [] (p # ps) = False"
| "startswith (c # cs) (p # ps) = (c = p \<and> startswith cs ps)"

text \<open>\<^verbatim>\<open>s.split(sep)\<close> for a separator of one character: every occurrence splits.\<close>

fun split_on :: "char \<Rightarrow> string \<Rightarrow> string list" where
  "split_on sep [] = [[]]"
| "split_on sep (c # cs) =
     (if c = sep then [] # split_on sep cs
      else (case split_on sep cs of [] \<Rightarrow> [[c]] | w # ws \<Rightarrow> (c # w) # ws))"

text \<open>\<^verbatim>\<open>s.split()\<close>: the maximal runs of non-whitespace characters; \<open>cur\<close> is the run
  being read, reversed.\<close>

fun split_ws :: "string \<Rightarrow> string \<Rightarrow> string list" where
  "split_ws cur [] = (if cur = [] then [] else [rev cur])"
| "split_ws cur (c # cs) =
     (if py_isspace c then (if cur = [] then split_ws [] cs else rev cur # split_ws [] cs)
      else split_ws (c # cur) cs)"

definition py_split :: "string \<Rightarrow> string list" where
  "py_split s = split_ws [] s"

text \<open>\<^verbatim>\<open>for line in f\<close>: the lines of a text, each with its line feed; a last line with
  no line feed is a line too.\<close>

fun py_lines :: "string \<Rightarrow> string list" where
  "py_lines [] = []"
| "py_lines (c # cs) =
     (if c = LF then [c] # py_lines cs
      else (case py_lines cs of [] \<Rightarrow> [[c]] | l # ls \<Rightarrow> (c # l) # ls))"

text \<open>\<^verbatim>\<open>xs[i]\<close> for \<open>i \<ge> 0\<close>.\<close>

definition item :: "'a list \<Rightarrow> nat \<Rightarrow> error + 'a" where
  "item xs i = (if i < length xs then Inr (xs ! i) else Inl IndexError)"

subsection \<open>\<^verbatim>\<open>int(s)\<close> and \<^verbatim>\<open>float(s)\<close>\<close>

text \<open>A digit part: decimal digits, with single underscores allowed between two digits.\<close>

fun digitpart :: "string \<Rightarrow> bool" where
  "digitpart [] = False"
| "digitpart [c] = is_digit c"
| "digitpart (c # d # cs) =
     (is_digit c \<and> (if d = CHR ''_'' then digitpart cs else digitpart (d # cs)))"

definition digits_val :: "string \<Rightarrow> int" where
  "digits_val s = foldl (\<lambda>a c. 10 * a + digit_val c) 0 (filter is_digit s)"

definition unsign :: "string \<Rightarrow> bool \<times> string" where
  "unsign s =
     (case s of
        [] \<Rightarrow> (False, [])
      | c # cs \<Rightarrow> if c = CHR ''-'' then (True, cs) else if c = CHR ''+'' then (False, cs)
                 else (False, s))"

text \<open>
  \<^verbatim>\<open>int\<close> and \<^verbatim>\<open>float\<close> strip their argument themselves, with a smaller set of
  whitespace characters than \<^verbatim>\<open>str.strip\<close> (the separators 28 to 31 stay).  Every
  argument the scripts pass has been stripped or split before, or is a group of a
  pattern that matches no whitespace, so this stripping finds nothing to remove there.  The limit that recent
  Python versions put on the number of digits of an \<^verbatim>\<open>int\<close> literal is not modelled.
\<close>

definition num_space :: "char \<Rightarrow> bool" where
  "num_space c = ((9 \<le> code c \<and> code c \<le> 13) \<or> code c = 32 \<or> code c = 133 \<or> code c = 160)"

definition num_strip :: "string \<Rightarrow> string" where
  "num_strip s = rev (dropWhile num_space (rev (dropWhile num_space s)))"

definition py_int :: "string \<Rightarrow> error + int" where
  "py_int s =
     (let (neg, body) = unsign (num_strip s) in
      if digitpart body
      then Inr (if neg then - digits_val body else digits_val body)
      else Inl ValueError)"

definition is_e :: "char \<Rightarrow> bool" where
  "is_e c = (c = CHR ''e'' \<or> c = CHR ''E'')"

definition not_dot :: "char \<Rightarrow> bool" where
  "not_dot c = (c \<noteq> CHR ''.'')"

text \<open>The mantissa \<open>m\<close> of a decimal number: an integer part, or at least one digit
  part around a point.\<close>

definition mantissa_ok :: "string \<Rightarrow> bool" where
  "mantissa_ok m =
     (let ip = takeWhile not_dot m; rest = dropWhile not_dot m in
      if rest = [] then digitpart ip
      else (let fp = tl rest in
            (ip = [] \<or> digitpart ip) \<and> (fp = [] \<or> digitpart fp) \<and> \<not> (ip = [] \<and> fp = [])))"

definition exponent_ok :: "string \<Rightarrow> bool" where
  "exponent_ok x = (x = [] \<or> digitpart (snd (unsign (tl x))))"

definition exponent_val :: "string \<Rightarrow> int" where
  "exponent_val x =
     (if x = [] then 0
      else (let (neg, ds) = unsign (tl x) in
            if neg then - digits_val ds else digits_val ds))"

definition scale10 :: "int \<Rightarrow> int \<Rightarrow> rat" where
  "scale10 n e = (if 0 \<le> e then of_int n * 10 ^ nat e else of_int n / 10 ^ nat (- e))"

definition decimal :: "string \<Rightarrow> rat option" where
  "decimal body =
     (let m = takeWhile (\<lambda>c. \<not> is_e c) body; x = dropWhile (\<lambda>c. \<not> is_e c) body in
      if mantissa_ok m \<and> exponent_ok x
      then Some (scale10 (digits_val m)
                   (exponent_val x - int (length (filter is_digit (dropWhile not_dot m)))))
      else None)"

definition py_float :: "string \<Rightarrow> error + pyfloat" where
  "py_float s =
     (let (neg, body) = unsign (num_strip s); low = map lower body in
      if low = ''inf'' \<or> low = ''infinity'' then Inr (if neg then NInf else PInf)
      else if low = ''nan'' then Inr NaN
      else (case decimal body of
              None \<Rightarrow> Inl ValueError
            | Some q \<Rightarrow> Inr (Fin (if neg then - q else q))))"

subsection \<open>Arithmetic and comparison of floats\<close>

definition py_gt :: "pyfloat \<Rightarrow> pyfloat \<Rightarrow> bool" where
  "py_gt a b =
     (case (a, b) of
        (Fin x, Fin y) \<Rightarrow> y < x
      | (PInf, Fin y) \<Rightarrow> True
      | (PInf, NInf) \<Rightarrow> True
      | (Fin x, NInf) \<Rightarrow> True
      | _ \<Rightarrow> False)"

definition is_zero :: "pyfloat \<Rightarrow> bool" where
  "is_zero a = (a = Fin 0)"

definition sgn_neg :: "pyfloat \<Rightarrow> bool" where
  "sgn_neg a = (case a of Fin x \<Rightarrow> x < 0 | NInf \<Rightarrow> True | _ \<Rightarrow> False)"

text \<open>\<^verbatim>\<open>a / b\<close>: a zero divisor raises.\<close>

definition truediv :: "pyfloat \<Rightarrow> pyfloat \<Rightarrow> error + pyfloat" where
  "truediv a b =
     (if is_zero b then Inl ZeroDivisionError
      else Inr (case (a, b) of
                  (Fin x, Fin y) \<Rightarrow> Fin (x / y)
                | (NaN, _) \<Rightarrow> NaN
                | (_, NaN) \<Rightarrow> NaN
                | (Fin x, _) \<Rightarrow> Fin 0
                | (_, Fin y) \<Rightarrow> if sgn_neg a = sgn_neg b then PInf else NInf
                | _ \<Rightarrow> NaN))"

definition py_add :: "pyfloat \<Rightarrow> pyfloat \<Rightarrow> pyfloat" where
  "py_add a b =
     (case (a, b) of
        (Fin x, Fin y) \<Rightarrow> Fin (x + y)
      | (NaN, _) \<Rightarrow> NaN
      | (_, NaN) \<Rightarrow> NaN
      | (Fin x, _) \<Rightarrow> b
      | (_, Fin y) \<Rightarrow> a
      | _ \<Rightarrow> if a = b then a else NaN)"

definition py_neg :: "pyfloat \<Rightarrow> pyfloat" where
  "py_neg a = (case a of Fin x \<Rightarrow> Fin (- x) | PInf \<Rightarrow> NInf | NInf \<Rightarrow> PInf | NaN \<Rightarrow> NaN)"

definition py_sub :: "pyfloat \<Rightarrow> pyfloat \<Rightarrow> pyfloat" where
  "py_sub a b = py_add a (py_neg b)"

text \<open>\<^verbatim>\<open>sum(xs)\<close>, from the left, starting at 0.\<close>

definition py_sum :: "pyfloat list \<Rightarrow> pyfloat" where
  "py_sum xs = foldl py_add (Fin 0) xs"

text \<open>\<^verbatim>\<open>sum(xs) / len(xs) if xs else 0.0\<close>, as both aggregation scripts write it.\<close>

definition average :: "pyfloat list \<Rightarrow> error + pyfloat" where
  "average xs = (if xs \<noteq> [] then truediv (py_sum xs) (Fin (of_nat (length xs))) else Inr (Fin 0))"

section \<open>The files\<close>

text \<open>
  The scripts build every path from a base directory, the environment number and the
  SMP number: \<^verbatim>\<open>results_summary-{env}.txt\<close>, \<^verbatim>\<open>time_log-{env}/time_log_{smp}.txt\<close> and
  \<^verbatim>\<open>logs-{env}/emulator_SMP_{smp}.log\<close>.  A file system gives the text of the files that
  exist; \<^verbatim>\<open>open\<close> on a path with no file raises.
\<close>

datatype path = Summary nat | TimeLog nat nat | EmulatorLog nat nat

type_synonym files = "path \<Rightarrow> string option"

definition exists_path :: "files \<Rightarrow> path \<Rightarrow> bool" where
  "exists_path fs p = (fs p \<noteq> None)"

definition open_read :: "files \<Rightarrow> path \<Rightarrow> error + string" where
  "open_read fs p = (case fs p of None \<Rightarrow> Inl FileNotFoundError | Some text \<Rightarrow> Inr text)"

section \<open>The time-log parsers (\<^verbatim>\<open>draw_scaled.py\<close>, \<^verbatim>\<open>draw_scaled_merge.py\<close>)\<close>

definition THRESHOLD :: pyfloat where
  "THRESHOLD = Fin 100000000"

text \<open>
  The body of the \<^verbatim>\<open>try\<close> of \<^verbatim>\<open>parse_ns_per_call_time_log\<close> on a stripped line:
  \<open>Some v\<close> when \<open>v\<close> is appended, \<open>None\<close> when the threshold test continues.
\<close>

definition ns_body :: "string \<Rightarrow> error + pyfloat option" where
  "ns_body line =
     bnd (item (split_on CHR '','' line) 1) (\<lambda>p1.
     bnd (item (split_on CHR '':'' p1) 1) (\<lambda>t.
     bnd (py_float (py_strip t)) (\<lambda>total_val.
       if py_gt total_val THRESHOLD then Inr None
       else bnd (truediv total_val (Fin 2)) (\<lambda>h.
            bnd (truediv h (Fin 1000000)) (\<lambda>ns_val. Inr (Some ns_val))))))"

text \<open>The body of the \<^verbatim>\<open>try\<close> of \<^verbatim>\<open>parse_percentage_time_log\<close>.\<close>

definition perc_body :: "string \<Rightarrow> error + pyfloat option" where
  "perc_body line =
     bnd (item (split_on CHR '','' line) 0) (\<lambda>p0.
     bnd (item (split_on CHR '':'' p0) 1) (\<lambda>d.
     bnd (item (split_on CHR '','' line) 1) (\<lambda>p1.
     bnd (item (split_on CHR '':'' p1) 1) (\<lambda>t.
     bnd (py_float (py_strip d)) (\<lambda>diff_val.
     bnd (py_float (py_strip t)) (\<lambda>total_val.
       if py_gt total_val THRESHOLD then Inr None
       else if \<not> is_zero diff_val
            then bnd (truediv total_val diff_val) (\<lambda>perc_val. Inr (Some perc_val))
            else Inr None))))))"

text \<open>
  The loop of both parsers over the lines of the file: strip the line, test the prefix,
  run the body; \<^verbatim>\<open>except (IndexError, ValueError): continue\<close> catches those two errors
  and lets any other one through.
\<close>

fun scan_lines ::
  "(string \<Rightarrow> error + pyfloat option) \<Rightarrow> string list \<Rightarrow> pyfloat list \<Rightarrow> error + pyfloat list"
where
  "scan_lines body [] values = Inr values"
| "scan_lines body (raw # rest) values =
     (let line = py_strip raw in
      if startswith line ''diff:''
      then (case body line of
              Inr (Some v) \<Rightarrow> scan_lines body rest (values @ [v])
            | Inr None \<Rightarrow> scan_lines body rest values
            | Inl e \<Rightarrow> if e = IndexError \<or> e = ValueError then scan_lines body rest values
                       else Inl e)
      else scan_lines body rest values)"

definition parse_ns_per_call_time_log :: "files \<Rightarrow> path \<Rightarrow> error + pyfloat list" where
  "parse_ns_per_call_time_log fs time_log_path =
     bnd (open_read fs time_log_path) (\<lambda>text. scan_lines ns_body (py_lines text) [])"

definition parse_percentage_time_log :: "files \<Rightarrow> path \<Rightarrow> error + pyfloat list" where
  "parse_percentage_time_log fs time_log_path =
     bnd (open_read fs time_log_path) (\<lambda>text. scan_lines perc_body (py_lines text) [])"

text \<open>The two fields of a line, as both parsers read them:
  \<^verbatim>\<open>float(line.split(',')[1].split(':')[1].strip())\<close> and
  \<^verbatim>\<open>float(line.split(',')[0].split(':')[1].strip())\<close>.\<close>

definition total_field :: "string \<Rightarrow> error + pyfloat" where
  "total_field line =
     bnd (item (split_on CHR '','' line) 1) (\<lambda>p1.
     bnd (item (split_on CHR '':'' p1) 1) (\<lambda>t. py_float (py_strip t)))"

definition diff_field :: "string \<Rightarrow> error + pyfloat" where
  "diff_field line =
     bnd (item (split_on CHR '','' line) 0) (\<lambda>p0.
     bnd (item (split_on CHR '':'' p0) 1) (\<lambda>d. py_float (py_strip d)))"

text \<open>\<^verbatim>\<open>(total_val / 2) / 1_000_000\<close>\<close>

definition ns_of_total :: "pyfloat \<Rightarrow> error + pyfloat" where
  "ns_of_total total_val = bnd (truediv total_val (Fin 2)) (\<lambda>h. truediv h (Fin 1000000))"

text \<open>A line contributes to a parser when the loop appends a value for it.\<close>

definition contributes :: "(string \<Rightarrow> error + pyfloat option) \<Rightarrow> string \<Rightarrow> bool" where
  "contributes body raw =
     (startswith (py_strip raw) ''diff:'' \<and>
      (case body (py_strip raw) of Inr (Some v) \<Rightarrow> True | _ \<Rightarrow> False))"

text \<open>What the percentage body does once both fields have parsed.\<close>

definition perc_tail :: "pyfloat \<Rightarrow> pyfloat \<Rightarrow> error + pyfloat option" where
  "perc_tail total_val diff_val =
     (if py_gt total_val THRESHOLD then Inr None
      else if \<not> is_zero diff_val
           then bnd (truediv total_val diff_val) (\<lambda>perc_val. Inr (Some perc_val))
           else Inr None)"

section \<open>The summary tables\<close>

text \<open>
  \<^verbatim>\<open>parse_summary_file\<close> of \<^verbatim>\<open>draw_scaled_merge.py\<close>.  A row of the table is the tuple
  \<^verbatim>\<open>(real_boot_time, times_called, predicted_ns_per_call, predict_sec, scale_factor,
  total_clocksource_ns, percentage)\<close>.  The body of the \<^verbatim>\<open>try\<close> reads the key and the
  seven values from the fields 0 to 7.
\<close>

type_synonym summary_row = "pyfloat \<times> pyfloat \<times> pyfloat \<times> pyfloat \<times> pyfloat \<times> pyfloat \<times> pyfloat"

definition float_at :: "string list \<Rightarrow> nat \<Rightarrow> error + pyfloat" where
  "float_at parts i = bnd (item parts i) py_float"

definition summary_try :: "string list \<Rightarrow> error + (int \<times> summary_row)" where
  "summary_try parts =
     bnd (bnd (item parts 0) py_int) (\<lambda>smp.
     bnd (float_at parts 1) (\<lambda>real_boot_time.
     bnd (float_at parts 2) (\<lambda>times_called.
     bnd (float_at parts 3) (\<lambda>predicted_ns_per_call.
     bnd (float_at parts 4) (\<lambda>predict_sec.
     bnd (float_at parts 5) (\<lambda>scale_factor.
     bnd (float_at parts 6) (\<lambda>total_clocksource_ns.
     bnd (float_at parts 7) (\<lambda>percentage_val.
       Inr (smp, (real_boot_time, times_called, predicted_ns_per_call, predict_sec,
                  scale_factor, total_clocksource_ns, percentage_val))))))))))"

text \<open>The loop over the lines; \<^verbatim>\<open>parts[0]\<close> is read outside the \<^verbatim>\<open>try\<close>, and
  \<^verbatim>\<open>except Exception: continue\<close> catches every error of the body.\<close>

fun summary_loop ::
  "string list \<Rightarrow> (int \<rightharpoonup> summary_row) \<Rightarrow> error + (int \<rightharpoonup> summary_row)"
where
  "summary_loop [] data = Inr data"
| "summary_loop (raw # rest) data =
     (let line = py_strip raw in
      if line = [] \<or> startswith line ''#'' then summary_loop rest data
      else (let parts = py_split line in
            case item parts 0 of
              Inl e \<Rightarrow> Inl e
            | Inr first \<Rightarrow>
                if first = ''SMP'' then summary_loop rest data
                else if 10 \<le> length parts
                     then (case summary_try parts of
                             Inr (smp, row) \<Rightarrow> summary_loop rest (data(smp \<mapsto> row))
                           | Inl e \<Rightarrow> summary_loop rest data)
                     else summary_loop rest data))"

definition parse_summary_file :: "files \<Rightarrow> nat \<Rightarrow> error + (int \<rightharpoonup> summary_row)" where
  "parse_summary_file fs env =
     bnd (open_read fs (Summary env)) (\<lambda>content. summary_loop (py_lines content) Map.empty)"

text \<open>
  \<^verbatim>\<open>parse_results_summary\<close> of \<^verbatim>\<open>draw_scaled.py\<close> keeps the predicted ns-per-call
  (field 3) only; its \<^verbatim>\<open>except ValueError: continue\<close> catches that one error.
\<close>

definition results_try :: "string list \<Rightarrow> error + (int \<times> pyfloat)" where
  "results_try parts =
     bnd (bnd (item parts 0) py_int) (\<lambda>smp_val.
     bnd (float_at parts 3) (\<lambda>predicted_ns. Inr (smp_val, predicted_ns)))"

fun results_loop :: "string list \<Rightarrow> (int \<rightharpoonup> pyfloat) \<Rightarrow> error + (int \<rightharpoonup> pyfloat)" where
  "results_loop [] smp_info = Inr smp_info"
| "results_loop (raw # rest) smp_info =
     (let line = py_strip raw in
      if line = [] \<or> startswith line ''#'' then results_loop rest smp_info
      else (let parts = py_split line in
            case item parts 0 of
              Inl e \<Rightarrow> Inl e
            | Inr first \<Rightarrow>
                if first = ''SMP'' then results_loop rest smp_info
                else if 10 \<le> length parts
                     then (case results_try parts of
                             Inr (smp_val, predicted_ns) \<Rightarrow>
                               results_loop rest (smp_info(smp_val \<mapsto> predicted_ns))
                           | Inl e \<Rightarrow> if e = ValueError then results_loop rest smp_info
                                      else Inl e)
                     else results_loop rest smp_info))"

definition parse_results_summary :: "files \<Rightarrow> path \<Rightarrow> error + (int \<rightharpoonup> pyfloat)" where
  "parse_results_summary fs summary_path =
     bnd (open_read fs summary_path) (\<lambda>content. results_loop (py_lines content) Map.empty)"

section \<open>The aggregation of \<^verbatim>\<open>draw_scaled_merge.py\<close>\<close>

text \<open>
  The script fills ten dictionaries, one per metric, each from the environment number
  to the list of the metric's values, one per SMP value.  The state of the run is the
  ten dictionaries, named by the metric.
\<close>

datatype metric =
    Diff_boot_time | Predict_boot_time | Predict_ns_call | Real_boot_time | Scale_factor
  | Times_called_cs | Total_clock_ns | Avg_percentage | Avg_real_ns_call | Diff_ns_call

type_synonym matrices = "metric \<Rightarrow> nat \<Rightarrow> pyfloat list option"

text \<open>\<^verbatim>\<open>d[env] = []\<close> for each of the ten dictionaries.\<close>

definition init_lists :: "nat \<Rightarrow> matrices \<Rightarrow> matrices" where
  "init_lists env st = (\<lambda>m. (st m)(env \<mapsto> []))"

text \<open>\<^verbatim>\<open>d[env].append(v)\<close> and \<^verbatim>\<open>d[env]\<close>; a missing key raises.\<close>

definition lookup :: "metric \<Rightarrow> nat \<Rightarrow> matrices \<Rightarrow> error + pyfloat list" where
  "lookup m env st = (case st m env of None \<Rightarrow> Inl KeyError | Some l \<Rightarrow> Inr l)"

definition append_to :: "metric \<Rightarrow> nat \<Rightarrow> pyfloat \<Rightarrow> matrices \<Rightarrow> error + matrices" where
  "append_to m env v st =
     bnd (lookup m env st) (\<lambda>l. Inr (st(m := (st m)(env \<mapsto> l @ [v]))))"

fun appends :: "(metric \<times> pyfloat) list \<Rightarrow> nat \<Rightarrow> matrices \<Rightarrow> error + matrices" where
  "appends [] env st = Inr st"
| "appends ((m, v) # rest) env st =
     (case append_to m env v st of Inl e \<Rightarrow> Inl e | Inr st' \<Rightarrow> appends rest env st')"

text \<open>The seven values taken from the summary row of the SMP value, or seven zeros.\<close>

definition summary_values :: "(int \<rightharpoonup> summary_row) \<Rightarrow> nat \<Rightarrow> (metric \<times> pyfloat) list" where
  "summary_values summary smp =
     (case summary (int smp) of
        Some (rbt, tc, pred_ns, pred_sec, sf, total_cs, _) \<Rightarrow>
          [(Diff_boot_time, py_sub pred_sec rbt), (Predict_boot_time, pred_sec),
           (Predict_ns_call, pred_ns), (Real_boot_time, rbt), (Scale_factor, sf),
           (Times_called_cs, tc), (Total_clock_ns, total_cs)]
      | None \<Rightarrow>
          [(Diff_boot_time, Fin 0), (Predict_boot_time, Fin 0), (Predict_ns_call, Fin 0),
           (Real_boot_time, Fin 0), (Scale_factor, Fin 0), (Times_called_cs, Fin 0),
           (Total_clock_ns, Fin 0)])"

text \<open>The two value lists of the time log of a cell; no file, no values.\<close>

definition read_time_log :: "files \<Rightarrow> nat \<Rightarrow> nat \<Rightarrow> error + (pyfloat list \<times> pyfloat list)" where
  "read_time_log fs env smp =
     (if exists_path fs (TimeLog env smp)
      then bnd (parse_percentage_time_log fs (TimeLog env smp)) (\<lambda>perc_vals.
           bnd (parse_ns_per_call_time_log fs (TimeLog env smp)) (\<lambda>ns_vals.
             Inr (perc_vals, ns_vals)))
      else Inr ([], []))"

text \<open>The body of the loop over the SMP values.\<close>

definition cell ::
  "files \<Rightarrow> (int \<rightharpoonup> summary_row) \<Rightarrow> nat \<Rightarrow> nat \<Rightarrow> matrices \<Rightarrow> error + matrices"
where
  "cell fs summary env smp st =
     bnd (appends (summary_values summary smp) env st) (\<lambda>st1.
     bnd (read_time_log fs env smp) (\<lambda>(perc_vals, ns_vals).
     bnd (average perc_vals) (\<lambda>avg_perc.
     bnd (append_to Avg_percentage env avg_perc st1) (\<lambda>st2.
     bnd (average ns_vals) (\<lambda>avg_ns.
     bnd (append_to Avg_real_ns_call env avg_ns st2) (\<lambda>st3.
     bnd (lookup Predict_ns_call env st3) (\<lambda>l.
       append_to Diff_ns_call env
         (py_sub avg_ns (if l \<noteq> [] then last l else Fin 0)) st3)))))))"

fun smp_loop ::
  "files \<Rightarrow> (int \<rightharpoonup> summary_row) \<Rightarrow> nat \<Rightarrow> nat list \<Rightarrow> matrices \<Rightarrow> error + matrices"
where
  "smp_loop fs summary env [] st = Inr st"
| "smp_loop fs summary env (smp # rest) st =
     (case cell fs summary env smp st of
        Inl e \<Rightarrow> Inl e
      | Inr st' \<Rightarrow> smp_loop fs summary env rest st')"

text \<open>The loop over the environments, \<^verbatim>\<open>range(1, NUM_ENV + 1)\<close>, each with the loop over
  \<^verbatim>\<open>range(1, NUM_SMP + 1)\<close>.\<close>

fun env_loop :: "files \<Rightarrow> nat \<Rightarrow> nat list \<Rightarrow> matrices \<Rightarrow> error + matrices" where
  "env_loop fs num_smp [] st = Inr st"
| "env_loop fs num_smp (env # rest) st =
     (case parse_summary_file fs env of
        Inl e \<Rightarrow> Inl e
      | Inr summary \<Rightarrow>
          (case smp_loop fs summary env [1..<Suc num_smp] (init_lists env st) of
             Inl e \<Rightarrow> Inl e
           | Inr st' \<Rightarrow> env_loop fs num_smp rest st'))"

definition collect :: "files \<Rightarrow> nat \<Rightarrow> nat \<Rightarrow> error + matrices" where
  "collect fs num_env num_smp = env_loop fs num_smp [1..<Suc num_env] (\<lambda>m env. None)"

definition NUM_ENV :: nat where
  "NUM_ENV = 7"

definition NUM_SMP :: nat where
  "NUM_SMP = 32"

section \<open>The per-set pass of \<^verbatim>\<open>draw_scaled.py\<close>\<close>

text \<open>
  For one set \<open>i\<close>, \<^verbatim>\<open>main\<close> builds the two lists \<^verbatim>\<open>avg_ns_list\<close> and
  \<^verbatim>\<open>avg_perc_list\<close>, one value per SMP value.  The body of its inner loop:
\<close>

definition set_cell ::
  "files \<Rightarrow> (int \<rightharpoonup> pyfloat) \<Rightarrow> nat \<Rightarrow> nat \<Rightarrow> pyfloat list \<times> pyfloat list
     \<Rightarrow> error + (pyfloat list \<times> pyfloat list)"
where
  "set_cell fs smp_data i smp acc =
     (case acc of (avg_ns_list, avg_perc_list) \<Rightarrow>
        if smp_data (int smp) = None then Inr (avg_ns_list @ [Fin 0], avg_perc_list @ [Fin 0])
        else if \<not> exists_path fs (TimeLog i smp)
             then Inr (avg_ns_list @ [Fin 0], avg_perc_list @ [Fin 0])
             else bnd (parse_ns_per_call_time_log fs (TimeLog i smp)) (\<lambda>ns_values.
                  bnd (average ns_values) (\<lambda>avg_ns.
                  bnd (parse_percentage_time_log fs (TimeLog i smp)) (\<lambda>perc_values.
                  bnd (average perc_values) (\<lambda>avg_perc.
                    Inr (avg_ns_list @ [avg_ns], avg_perc_list @ [avg_perc]))))))"

fun set_loop ::
  "files \<Rightarrow> (int \<rightharpoonup> pyfloat) \<Rightarrow> nat \<Rightarrow> nat list \<Rightarrow> pyfloat list \<times> pyfloat list
     \<Rightarrow> error + (pyfloat list \<times> pyfloat list)"
where
  "set_loop fs smp_data i [] acc = Inr acc"
| "set_loop fs smp_data i (smp # rest) acc =
     (case set_cell fs smp_data i smp acc of
        Inl e \<Rightarrow> Inl e
      | Inr acc' \<Rightarrow> set_loop fs smp_data i rest acc')"

definition set_pass :: "files \<Rightarrow> nat \<Rightarrow> nat \<Rightarrow> error + (pyfloat list \<times> pyfloat list)" where
  "set_pass fs i num_smp =
     bnd (parse_results_summary fs (Summary i)) (\<lambda>smp_data.
       set_loop fs smp_data i [1..<Suc num_smp] ([], []))"

section \<open>The emulator logs (\<^verbatim>\<open>draw_increase.py\<close>, \<^verbatim>\<open>draw_increase_merge.py\<close>)\<close>

subsection \<open>\<^verbatim>\<open>remove_ansi_codes\<close>\<close>

text \<open>
  \<^verbatim>\<open>re.sub(r'\x1b\[[0-9;]*m', '', s)\<close>: one pass from the left; at each position either the
  pattern matches and the match is dropped, or the character is kept.  After
  \<^verbatim>\<open>ESC [\<close> the parameters are the longest run of digits and semicolons, and the match
  needs an \<^verbatim>\<open>m\<close> right after them (no shorter run can be followed by \<^verbatim>\<open>m\<close>).
  \<open>ansi_tail\<close> reads the text after \<^verbatim>\<open>ESC [\<close> and gives the text after the match.
\<close>

definition is_param :: "char \<Rightarrow> bool" where
  "is_param c = (is_digit c \<or> c = CHR '';'')"

definition ansi_tail :: "string \<Rightarrow> string option" where
  "ansi_tail s =
     (case dropWhile is_param s of
        [] \<Rightarrow> None
      | c # rest \<Rightarrow> if c = CHR ''m'' then Some rest else None)"

text \<open>The text after an escape sequence that starts the string, if one does.\<close>

definition ansi_match :: "string \<Rightarrow> string option" where
  "ansi_match s =
     (case s of
        c # d # ds \<Rightarrow> if c = ESC \<and> d = CHR ''['' then ansi_tail ds else None
      | _ \<Rightarrow> None)"

lemma ansi_match_shorter: "ansi_match s = Some rest \<Longrightarrow> length rest < length s"
proof -
  assume a: "ansi_match s = Some rest"
  then obtain c d ds where s: "s = c # d # ds" and t: "ansi_tail ds = Some rest"
    by (auto simp: ansi_match_def split: list.splits if_splits)
  from t obtain x where "dropWhile is_param ds = x # rest"
    by (auto simp: ansi_tail_def split: list.splits if_splits)
  then have "length rest < length (dropWhile is_param ds)" by simp
  also have "\<dots> \<le> length ds" by (rule length_dropWhile_le)
  finally show ?thesis using s by simp
qed

function remove_ansi_codes :: "string \<Rightarrow> string" where
  "remove_ansi_codes [] = []"
| "remove_ansi_codes (c # cs) =
     (case ansi_match (c # cs) of
        Some rest \<Rightarrow> remove_ansi_codes rest
      | None \<Rightarrow> c # remove_ansi_codes cs)"
  by pat_completeness auto
termination
  by (relation "measure length") (auto dest: ansi_match_shorter)

subsection \<open>The two patterns\<close>

text \<open>
  Both patterns are compiled with \<^verbatim>\<open>re.IGNORECASE\<close>.  Each repetition in them is followed
  by an item that no character of the repetition can start, so at a given position
  the only possible match takes every repetition as long as it goes.
  \<open>literal\<close> reads a literal text ignoring case, \<open>spaces1\<close> reads \<^verbatim>\<open>\s+\<close>, \<open>run1\<close> reads
  a group \<^verbatim>\<open>([...]+)\<close> and gives the group and the text after it.
\<close>

fun literal :: "string \<Rightarrow> string \<Rightarrow> string option" where
  "literal [] s = Some s"
| "literal (p # ps) [] = None"
| "literal (p # ps) (c # cs) = (if lower c = lower p then literal ps cs else None)"

definition spaces1 :: "string \<Rightarrow> string option" where
  "spaces1 s =
     (case s of
        [] \<Rightarrow> None
      | c # cs \<Rightarrow> if py_isspace c then Some (dropWhile py_isspace cs) else None)"

definition run1 :: "(char \<Rightarrow> bool) \<Rightarrow> string \<Rightarrow> (string \<times> string) option" where
  "run1 cls s = (if takeWhile cls s = [] then None else Some (takeWhile cls s, dropWhile cls s))"

definition digit_or_dot :: "char \<Rightarrow> bool" where
  "digit_or_dot c = (is_digit c \<or> c = CHR ''.'')"

text \<open>\<^verbatim>\<open>Boot time:\s*([0-9.]+)\s+seconds,\s+called\s+([0-9]+)\s+times\<close> at the start of
  \<open>s\<close>: the two groups.\<close>

definition boot_re :: "string \<Rightarrow> (string \<times> string) option" where
  "boot_re s =
     Option.bind (literal ''Boot time:'' s) (\<lambda>r1.
     Option.bind (run1 digit_or_dot (dropWhile py_isspace r1)) (\<lambda>(g1, r2).
     Option.bind (spaces1 r2) (\<lambda>r3.
     Option.bind (literal ''seconds,'' r3) (\<lambda>r4.
     Option.bind (spaces1 r4) (\<lambda>r5.
     Option.bind (literal ''called'' r5) (\<lambda>r6.
     Option.bind (spaces1 r6) (\<lambda>r7.
     Option.bind (run1 is_digit r7) (\<lambda>(g2, r8).
     Option.bind (spaces1 r8) (\<lambda>r9.
     Option.bind (literal ''times'' r9) (\<lambda>r10. Some (g1, g2)))))))))))"

text \<open>\<^verbatim>\<open>offset:\s*(-?[0-9]+)\<close> at the start of \<open>s\<close>: the group.\<close>

definition offset_re :: "string \<Rightarrow> string option" where
  "offset_re s =
     Option.bind (literal ''offset:'' s) (\<lambda>r1.
       (case dropWhile py_isspace r1 of
          [] \<Rightarrow> None
        | c # cs \<Rightarrow>
            if c = CHR ''-''
            then Option.bind (run1 is_digit cs) (\<lambda>(g, r). Some (c # g))
            else Option.bind (run1 is_digit (c # cs)) (\<lambda>(g, r). Some g)))"

text \<open>\<^verbatim>\<open>pattern.search(content)\<close>: the match at the leftmost position that has one.\<close>

fun search :: "(string \<Rightarrow> 'a option) \<Rightarrow> string \<Rightarrow> 'a option" where
  "search pat [] = pat []"
| "search pat (c # cs) = (case pat (c # cs) of Some r \<Rightarrow> Some r | None \<Rightarrow> search pat cs)"

subsection \<open>One log\<close>

text \<open>
  The boot time and the call count of a text (the \<^verbatim>\<open>if boot_match\<close> block) and its
  offset (the \<^verbatim>\<open>if offset_match\<close> block).  Nothing catches an error of \<^verbatim>\<open>float\<close> or
  \<^verbatim>\<open>int\<close> here.
\<close>

definition boot_of :: "string \<Rightarrow> error + (pyfloat \<times> int)" where
  "boot_of content =
     (case search boot_re content of
        Some (g1, g2) \<Rightarrow>
          bnd (py_float g1) (\<lambda>boot_time.
          bnd (py_int g2) (\<lambda>times_called. Inr (boot_time, times_called)))
      | None \<Rightarrow> Inr (Fin 0, 0))"

definition offset_of :: "string \<Rightarrow> error + int" where
  "offset_of content =
     (case search offset_re content of
        Some g \<Rightarrow> py_int g
      | None \<Rightarrow> Inr 0)"

text \<open>What both scripts compute from the text of a log that exists: the codes are
  removed, then the two patterns are searched.\<close>

definition log_metrics :: "string \<Rightarrow> error + (pyfloat \<times> int \<times> int)" where
  "log_metrics raw =
     (let content = remove_ansi_codes raw in
      bnd (boot_of content) (\<lambda>(boot_time, times_called).
      bnd (offset_of content) (\<lambda>offset_val. Inr (boot_time, times_called, offset_val))))"

text \<open>The entry of a cell: the defaults when the log does not exist.\<close>

definition log_entry :: "files \<Rightarrow> nat \<Rightarrow> nat \<Rightarrow> error + (pyfloat \<times> int \<times> int)" where
  "log_entry fs env smp =
     (if \<not> exists_path fs (EmulatorLog env smp) then Inr (Fin 0, 0, 0)
      else bnd (open_read fs (EmulatorLog env smp)) log_metrics)"

text \<open>A text has complete escapes when every \<^verbatim>\<open>ESC\<close> in it starts an escape sequence:
  at every position the pass visits, a sequence starts or the character is no
  \<^verbatim>\<open>ESC\<close>.\<close>

function complete_escapes :: "string \<Rightarrow> bool" where
  "complete_escapes [] = True"
| "complete_escapes (c # cs) =
     (case ansi_match (c # cs) of
        Some rest \<Rightarrow> complete_escapes rest
      | None \<Rightarrow> c \<noteq> ESC \<and> complete_escapes cs)"
  by pat_completeness auto
termination
  by (relation "measure length") (auto dest: ansi_match_shorter)

section \<open>The specification's words\<close>

subsection \<open>The summary table\<close>

text \<open>
  The specification says which lines of a table enter the mapping: the line is not
  blank, does not start with \<^verbatim>\<open>#\<close>, has at least 10 fields, its first field is not
  \<^verbatim>\<open>SMP\<close>, and its key and its values parse.  \<open>spec_included\<close> is that condition
  and \<open>spec_entry\<close> the entry of such a line, to be compared with
  \<^verbatim>\<open>parse_summary_file\<close>.
\<close>

definition spec_included :: "string \<Rightarrow> bool" where
  "spec_included raw =
     (let line = py_strip raw; parts = py_split line in
      line \<noteq> [] \<and> \<not> startswith line ''#'' \<and> 10 \<le> length parts \<and> parts ! 0 \<noteq> ''SMP'' \<and>
      \<not> isl (py_int (parts ! 0)) \<and> list_all (\<lambda>i. \<not> isl (py_float (parts ! i))) [1..<8])"

definition spec_entry :: "string \<Rightarrow> int \<times> summary_row" where
  "spec_entry raw =
     (let parts = py_split (py_strip raw) in
      (projr (py_int (parts ! 0)),
       (projr (py_float (parts ! 1)), projr (py_float (parts ! 2)), projr (py_float (parts ! 3)),
        projr (py_float (parts ! 4)), projr (py_float (parts ! 5)), projr (py_float (parts ! 6)),
        projr (py_float (parts ! 7)))))"

text \<open>The same for \<^verbatim>\<open>parse_results_summary\<close>, whose one value is field 3.\<close>

definition results_included :: "string \<Rightarrow> bool" where
  "results_included raw =
     (let line = py_strip raw; parts = py_split line in
      line \<noteq> [] \<and> \<not> startswith line ''#'' \<and> 10 \<le> length parts \<and> parts ! 0 \<noteq> ''SMP'' \<and>
      \<not> isl (py_int (parts ! 0)) \<and> \<not> isl (py_float (parts ! 3)))"

definition results_entry :: "string \<Rightarrow> int \<times> pyfloat" where
  "results_entry raw =
     (let parts = py_split (py_strip raw) in
      (projr (py_int (parts ! 0)), projr (py_float (parts ! 3))))"

subsection \<open>The matrices\<close>

text \<open>
  The specification gives each matrix one entry per cell: the summary columns of the
  row of the SMP value (zero when the table has no such row), the means of the two
  value lists of the cell's time log (zero for an empty list), and the two
  differences.  \<open>spec_cell\<close> is that entry, to be compared with what the loops append.
\<close>

definition mean :: "pyfloat list \<Rightarrow> pyfloat" where
  "mean xs = (case average xs of Inr v \<Rightarrow> v | Inl e \<Rightarrow> Fin 0)"

definition spec_cell :: "summary_row option \<Rightarrow> pyfloat list \<Rightarrow> pyfloat list \<Rightarrow> metric \<Rightarrow> pyfloat" where
  "spec_cell row perc_vals ns_vals m =
     (case row of
        None \<Rightarrow>
          (case m of
             Avg_percentage \<Rightarrow> mean perc_vals
           | Avg_real_ns_call \<Rightarrow> mean ns_vals
           | Diff_ns_call \<Rightarrow> py_sub (mean ns_vals) (Fin 0)
           | _ \<Rightarrow> Fin 0)
      | Some (rbt, tc, pred_ns, pred_sec, sf, total_cs, pct) \<Rightarrow>
          (case m of
             Diff_boot_time \<Rightarrow> py_sub pred_sec rbt
           | Predict_boot_time \<Rightarrow> pred_sec
           | Predict_ns_call \<Rightarrow> pred_ns
           | Real_boot_time \<Rightarrow> rbt
           | Scale_factor \<Rightarrow> sf
           | Times_called_cs \<Rightarrow> tc
           | Total_clock_ns \<Rightarrow> total_cs
           | Avg_percentage \<Rightarrow> mean perc_vals
           | Avg_real_ns_call \<Rightarrow> mean ns_vals
           | Diff_ns_call \<Rightarrow> py_sub (mean ns_vals) pred_ns))"

text \<open>The table of an environment and the value lists of a cell, empty when the run
  has none.\<close>

definition table_of :: "files \<Rightarrow> nat \<Rightarrow> (int \<rightharpoonup> summary_row)" where
  "table_of fs env = (case parse_summary_file fs env of Inr t \<Rightarrow> t | Inl e \<Rightarrow> Map.empty)"

definition values_of :: "files \<Rightarrow> nat \<Rightarrow> nat \<Rightarrow> pyfloat list \<times> pyfloat list" where
  "values_of fs env smp = (case read_time_log fs env smp of Inr pn \<Rightarrow> pn | Inl e \<Rightarrow> ([], []))"

definition spec_entry_at :: "files \<Rightarrow> nat \<Rightarrow> nat \<Rightarrow> metric \<Rightarrow> pyfloat" where
  "spec_entry_at fs env smp m =
     spec_cell (table_of fs env (int smp)) (fst (values_of fs env smp)) (snd (values_of fs env smp)) m"

section \<open>Sample inputs\<close>



text \<open>A time log whose first record has a zero diff field.\<close>

definition zero_diff_log :: string where
  "zero_diff_log = ''diff: 0, total: 60\<newline>diff: 100, total: 60\<newline>''"

definition zero_diff_files :: files where
  "zero_diff_files = (\<lambda>p. if p = TimeLog 2 3 then Some zero_diff_log else None)"

text \<open>A summary table with a comment, a blank line, a header, a short row, a row with a
  field that is no number, and two rows for the key 4.\<close>

definition table_text :: string where
  "table_text = ''# results of set 1\<newline>\<newline>SMP a b c d e f g h i\<newline>4 0.1 1000 50.0 0.15 1.5 50000 0.2 0 0\<newline>5 1 2 3\<newline>6 x 1 1 1 1 1 1 1 1\<newline>4 0.2 1000 51.0 0.15 1.5 50000 0.2 0 0\<newline>''"

definition table_files :: files where
  "table_files = (\<lambda>p. if p = Summary 1 then Some table_text else None)"

text \<open>The end-to-end scenario of the specification: one environment, whose table has a
  header and the row of SMP 4, and the time log of the cell (1, 4) with two records.\<close>

definition scenario_files :: files where
  "scenario_files = (\<lambda>p.
     if p = Summary 1
     then Some ''SMP a b c d e f g h i\<newline>4  0.100  1000  50.0  0.150  1.5  50000  0.2  0.00003  -49.99997\<newline>''
     else if p = TimeLog 1 4
     then Some ''diff: 100, total: 60\<newline>diff: 100, total: 1e9\<newline>''
     else None)"

text \<open>One environment whose table has a row for SMP 2 only, and the time log of the
  cell (1, 1) with two records.\<close>

definition no_row_files :: files where
  "no_row_files = (\<lambda>p.
     if p = Summary 1 then Some ''SMP a b c d e f g h i\<newline>2 0.1 1000 50.0 0.15 1.5 50000 0.2 0 0\<newline>''
     else if p = TimeLog 1 1 then Some ''diff: 100, total: 60\<newline>diff: 50, total: 20\<newline>''
     else None)"

text \<open>Emulator logs: one with colour codes around the prefix of each line, one with an
  escape character in front of an escape sequence in the middle of the boot line, and
  one whose boot time is no number.  A time log with a colour code before its record.\<close>

definition colour_log :: string where
  "colour_log = [ESC] @ ''[1;32m[SEMU LOG]: '' @ [ESC] @ ''[0mBoot time: 3.59699 seconds, called 239937385 times semu_timer_clocksource\<newline>'' @ [ESC] @ ''[1;32m[SEMU LOG]: '' @ [ESC] @ ''[0mtimer->begin: 29344993606427, real_ticks: 29345227607119, boot_ticks: 29345773402928, offset: -545795809\<newline>''"



definition bad_boot_log :: string where
  "bad_boot_log = ''Boot time: 3..5 seconds, called 100 times\<newline>''"

section \<open>Properties of the time-log parsers\<close>

lemma bnd_simps [simp]: "bnd (Inl e) f = Inl e" "bnd (Inr x) f = f x"
  by (simp_all add: bnd_def)

lemma bnd_Inr_iff: "bnd r f = Inr y \<longleftrightarrow> (\<exists>x. r = Inr x \<and> f x = Inr y)"
  by (cases r) simp_all

lemma bnd_Inl_iff: "bnd r f = Inl e \<longleftrightarrow> r = Inl e \<or> (\<exists>x. r = Inr x \<and> f x = Inl e)"
  by (cases r) simp_all


lemma truediv_const [simp]: "is_zero (Fin 2) = False" "is_zero (Fin 1000000) = False"
  by (simp_all add: is_zero_def)

lemma ns_of_total_Inr: "\<exists>v. ns_of_total t = Inr v"
  by (simp add: ns_of_total_def truediv_def)

lemma ns_of_total_Fin: "ns_of_total (Fin x) = Inr (Fin (x / 2 / 1000000))"
  by (simp add: ns_of_total_def truediv_def)

lemma ns_body_total:
  "ns_body line =
     bnd (total_field line) (\<lambda>total_val.
       if py_gt total_val THRESHOLD then Inr None
       else bnd (ns_of_total total_val) (\<lambda>v. Inr (Some v)))"
  unfolding ns_body_def total_field_def ns_of_total_def
  by (auto simp: bnd_def split: sum.splits)

lemma item_err: "item xs i = Inl e \<Longrightarrow> e = IndexError"
  by (simp add: item_def split: if_splits)

lemma py_float_err: "py_float s = Inl e \<Longrightarrow> e = ValueError"
  by (auto simp: py_float_def Let_def split: prod.splits if_splits option.splits)

lemma total_field_err: "total_field line = Inl e \<Longrightarrow> e = IndexError \<or> e = ValueError"
  unfolding total_field_def
  by (auto simp: bnd_Inl_iff dest: item_err py_float_err)

lemma perc_body_tail:
  "perc_body line =
     bnd (item (split_on CHR '','' line) 0) (\<lambda>p0.
     bnd (item (split_on CHR '':'' p0) 1) (\<lambda>d.
     bnd (item (split_on CHR '','' line) 1) (\<lambda>p1.
     bnd (item (split_on CHR '':'' p1) 1) (\<lambda>t.
     bnd (py_float (py_strip d)) (\<lambda>diff_val.
     bnd (py_float (py_strip t)) (\<lambda>total_val. perc_tail total_val diff_val))))))"
  by (simp add: perc_body_def perc_tail_def)


lemma perc_body_Inr:
  "perc_body line = Inr r \<Longrightarrow>
     \<exists>t d. total_field line = Inr t \<and> diff_field line = Inr d \<and> perc_tail t d = Inr r"
  unfolding perc_body_tail total_field_def diff_field_def
  by (auto simp: bnd_Inr_iff)

lemma perc_tail_Inr: "\<exists>r. perc_tail t d = Inr r"
  by (auto simp: perc_tail_def truediv_def)

lemma perc_body_err: "perc_body line = Inl e \<Longrightarrow> e = IndexError \<or> e = ValueError"
  unfolding perc_body_tail
  using perc_tail_Inr
  by (auto simp: bnd_Inl_iff dest: item_err py_float_err) (metis Inl_Inr_False)

lemma ns_body_err: "ns_body line = Inl e \<Longrightarrow> e = IndexError \<or> e = ValueError"
  unfolding ns_body_total
  using ns_of_total_Inr
  by (auto simp: bnd_Inl_iff dest: total_field_err split: if_splits) (metis Inl_Inr_False)


lemma scan_lines_values:
  assumes safe: "\<And>l e. body l = Inl e \<Longrightarrow> e = IndexError \<or> e = ValueError"
  shows "\<exists>vs. \<forall>values. scan_lines body xs values = Inr (values @ vs)"
proof (induction xs)
  case Nil
  show ?case by simp
next
  case (Cons raw rest)
  then obtain vs where vs: "\<And>values. scan_lines body rest values = Inr (values @ vs)"
    by blast
  show ?case
  proof (cases "startswith (py_strip raw) ''diff:''")
    case False
    then show ?thesis using vs by (auto simp: Let_def)
  next
    case True
    show ?thesis
    proof (cases "body (py_strip raw)")
      case (Inl e)
      with safe have "e = IndexError \<or> e = ValueError" by blast
      with Inl True vs show ?thesis by (auto simp: Let_def)
    next
      case (Inr r)
      show ?thesis
      proof (cases r)
        case None
        with Inr True vs show ?thesis by (auto simp: Let_def)
      next
        case (Some v)
        with Inr True vs have "\<forall>values. scan_lines body (raw # rest) values = Inr (values @ (v # vs))"
          by (simp add: Let_def)
        then show ?thesis by blast
      qed
    qed
  qed
qed

lemma scan_ns_values: "\<exists>vs. \<forall>values. scan_lines ns_body xs values = Inr (values @ vs)"
  by (rule scan_lines_values) (rule ns_body_err)

lemma scan_perc_values: "\<exists>vs. \<forall>values. scan_lines perc_body xs values = Inr (values @ vs)"
  by (rule scan_lines_values) (rule perc_body_err)





lemma within_threshold_ns:
  assumes "total_field line = Inr t" and "\<not> py_gt t THRESHOLD" and "ns_of_total t = Inr v"
  shows "ns_body line = Inr (Some v)"
  using assms by (simp add: ns_body_total)


lemma parse_ns_file:
  "fs p = Some text \<Longrightarrow> parse_ns_per_call_time_log fs p = scan_lines ns_body (py_lines text) []"
  by (simp add: parse_ns_per_call_time_log_def open_read_def)

lemma parse_perc_file:
  "fs p = Some text \<Longrightarrow> parse_percentage_time_log fs p = scan_lines perc_body (py_lines text) []"
  by (simp add: parse_percentage_time_log_def open_read_def)






lemma scan_lines_count:
  "scan_lines body ls values = Inr vs \<Longrightarrow>
     length vs = length values + length (filter (contributes body) ls)"
proof (induction ls arbitrary: "values")
  case Nil
  then show ?case by auto
next
  case (Cons raw rest)
  then show ?case
    by (auto simp: Let_def contributes_def split: if_splits sum.splits option.splits)
qed

lemma perc_contributes_ns: "contributes perc_body raw \<Longrightarrow> contributes ns_body raw"
proof -
  assume a: "contributes perc_body raw"
  then obtain v where pre: "startswith (py_strip raw) ''diff:''"
    and v: "perc_body (py_strip raw) = Inr (Some v)"
    by (auto simp: contributes_def split: sum.splits option.splits)
  from perc_body_Inr [OF v] obtain t d where t: "total_field (py_strip raw) = Inr t"
    and tail: "perc_tail t d = Inr (Some v)" by blast
  from tail have le: "\<not> py_gt t THRESHOLD"
    by (auto simp: perc_tail_def split: if_splits)
  obtain w where "ns_of_total t = Inr w" using ns_of_total_Inr by blast
  with t le have "ns_body (py_strip raw) = Inr (Some w)"
    by (rule within_threshold_ns)
  with pre show ?thesis by (simp add: contributes_def)
qed

text \<open>
  Claim C10.  Every line that contributes to the percentage parser contributes to the
  ns-per-call parser.  The ns-per-call body is a function of the total field alone.
  For every existing log both parsers return a list with one value per contributing
  line, so the percentage list is never the longer one.  The inclusion can be strict:
  a line with total 5 and a zero or non-numeric diff field contributes to the
  ns-per-call list only.
\<close>

theorem percentage_lines_subset:
  "(contributes perc_body raw \<longrightarrow> contributes ns_body raw) \<and>
   (total_field l1 = total_field l2 \<longrightarrow> ns_body l1 = ns_body l2) \<and>
   (fs p = Some content \<longrightarrow>
      (\<exists>N P. parse_ns_per_call_time_log fs p = Inr N \<and>
             parse_percentage_time_log fs p = Inr P \<and>
             length N = length (filter (contributes ns_body) (py_lines content)) \<and>
             length P = length (filter (contributes perc_body) (py_lines content)) \<and>
             length P \<le> length N)) \<and>
   contributes ns_body ''diff: 0, total: 5'' \<and> \<not> contributes perc_body ''diff: 0, total: 5'' \<and>
   contributes ns_body ''diff: abc, total: 5'' \<and> \<not> contributes perc_body ''diff: abc, total: 5''"
proof (intro conjI impI)
  show "contributes ns_body raw" if "contributes perc_body raw"
    using that by (rule perc_contributes_ns)
  show "ns_body l1 = ns_body l2" if "total_field l1 = total_field l2"
    using that by (simp add: ns_body_total)
  show "\<exists>N P. parse_ns_per_call_time_log fs p = Inr N \<and>
             parse_percentage_time_log fs p = Inr P \<and>
             length N = length (filter (contributes ns_body) (py_lines content)) \<and>
             length P = length (filter (contributes perc_body) (py_lines content)) \<and>
             length P \<le> length N" if given: "fs p = Some content"
  proof -
    obtain N where N: "scan_lines ns_body (py_lines content) [] = Inr N"
      using scan_ns_values [of "py_lines content"] by blast
    obtain P where P: "scan_lines perc_body (py_lines content) [] = Inr P"
      using scan_perc_values [of "py_lines content"] by blast
    have n: "length N = length (filter (contributes ns_body) (py_lines content))"
      using scan_lines_count [OF N] by simp
    have p: "length P = length (filter (contributes perc_body) (py_lines content))"
      using scan_lines_count [OF P] by simp
    have "length (filter (contributes perc_body) ls) \<le> length (filter (contributes ns_body) ls)" for ls
      by (induction ls) (auto dest: perc_contributes_ns)
    with n p have "length P \<le> length N" by simp
    with N P n p show ?thesis
      unfolding parse_ns_file [of fs p content, OF given] parse_perc_file [of fs p content, OF given]
      by blast
  qed
  show "contributes ns_body ''diff: 0, total: 5''" by code_simp
  show "\<not> contributes perc_body ''diff: 0, total: 5''" by code_simp
  show "contributes ns_body ''diff: abc, total: 5''" by code_simp
  show "\<not> contributes perc_body ''diff: abc, total: 5''" by code_simp
qed

theorem percentage_lines_subset_witness:
  "contributes perc_body ''diff: 1000, total: 500\<newline>'' \<and>
   contributes ns_body ''diff: 1000, total: 500\<newline>'' \<and>
   total_field ''diff: 0, total: 5'' = total_field ''diff: abc, total: 5'' \<and>
   ns_body ''diff: 0, total: 5'' = ns_body ''diff: abc, total: 5'' \<and>
   parse_ns_per_call_time_log zero_diff_files (TimeLog 2 3) = Inr [Fin (3 / 100000), Fin (3 / 100000)] \<and>
   parse_percentage_time_log zero_diff_files (TimeLog 2 3) = Inr [Fin (3 / 5)]"
proof -
  have a: "contributes perc_body ''diff: 1000, total: 500\<newline>''" by code_simp
  have b: "total_field ''diff: 0, total: 5'' = total_field ''diff: abc, total: 5''" by code_simp
  have c: "zero_diff_files (TimeLog 2 3) = Some zero_diff_log" by (simp add: zero_diff_files_def)
  have d: "parse_ns_per_call_time_log zero_diff_files (TimeLog 2 3) = Inr [Fin (3 / 100000), Fin (3 / 100000)]"
    by code_simp
  have e: "parse_percentage_time_log zero_diff_files (TimeLog 2 3) = Inr [Fin (3 / 5)]"
    by code_simp
  from percentage_lines_subset [of "''diff: 1000, total: 500\<newline>''" "''diff: 0, total: 5''"
      "''diff: abc, total: 5''" zero_diff_files "TimeLog 2 3" zero_diff_log] a b c d e
  show ?thesis by simp
qed

section \<open>Properties of the summary tables\<close>

lemma split_ws_nonempty:
  "cur \<noteq> [] \<or> (\<exists>c\<in>set s. \<not> py_isspace c) \<Longrightarrow> split_ws cur s \<noteq> []"
  by (induction s arbitrary: cur) auto

lemma strip_has_char: "py_strip s \<noteq> [] \<Longrightarrow> \<exists>c\<in>set (py_strip s). \<not> py_isspace c"
proof -
  assume a: "py_strip s \<noteq> []"
  let ?r = "dropWhile py_isspace (rev (dropWhile py_isspace s))"
  from a have ne: "?r \<noteq> []" by (simp add: py_strip_def)
  then have "\<not> py_isspace (hd ?r)" by (rule hd_dropWhile)
  moreover from ne have "hd ?r \<in> set ?r" by simp
  ultimately show ?thesis by (auto simp: py_strip_def)
qed

lemma split_strip_nonempty: "py_strip s \<noteq> [] \<Longrightarrow> py_split (py_strip s) \<noteq> []"
  unfolding py_split_def by (rule split_ws_nonempty) (simp add: strip_has_char)

lemma item_in_range: "i < length xs \<Longrightarrow> item xs i = Inr (xs ! i)"
  by (simp add: item_def)

lemma float_at_in_range: "i < length parts \<Longrightarrow> float_at parts i = py_float (parts ! i)"
  by (simp add: float_at_def item_def)

lemma summary_try_parsed:
  assumes len: "10 \<le> length parts"
    and key: "\<not> isl (py_int (parts ! 0))"
    and vals: "list_all (\<lambda>i. \<not> isl (py_float (parts ! i))) [1..<8]"
  shows "summary_try parts =
     Inr (projr (py_int (parts ! 0)),
       (projr (py_float (parts ! 1)), projr (py_float (parts ! 2)), projr (py_float (parts ! 3)),
        projr (py_float (parts ! 4)), projr (py_float (parts ! 5)), projr (py_float (parts ! 6)),
        projr (py_float (parts ! 7))))"
proof -
  have u: "[1..<8] = [1, 2, 3, 4, 5, 6, 7::nat]" by (simp add: upt_rec)
  from key obtain k where k: "py_int (parts ! 0) = Inr k" by (cases "py_int (parts ! 0)") auto
  from vals have "\<forall>i\<in>{1, 2, 3, 4, 5, 6, 7::nat}. \<exists>v. py_float (parts ! i) = Inr v"
    unfolding u by (auto simp: isl_def) (metis old.sum.exhaust)+
  then obtain v1 v2 v3 v4 v5 v6 v7 where
    "py_float (parts ! 1) = Inr v1" "py_float (parts ! 2) = Inr v2"
    "py_float (parts ! 3) = Inr v3" "py_float (parts ! 4) = Inr v4"
    "py_float (parts ! 5) = Inr v5" "py_float (parts ! 6) = Inr v6"
    "py_float (parts ! 7) = Inr v7"
    by auto
  moreover from len have "item parts 0 = Inr (parts ! 0)"
    by (auto simp: item_def)
  ultimately show ?thesis
    using k len by (simp add: summary_try_def float_at_in_range)
qed

lemma summary_try_failed:
  assumes len: "10 \<le> length parts"
    and bad: "isl (py_int (parts ! 0)) \<or> \<not> list_all (\<lambda>i. \<not> isl (py_float (parts ! i))) [1..<8]"
  shows "isl (summary_try parts)"
proof -
  have u: "[1..<8] = [1, 2, 3, 4, 5, 6, 7::nat]" by (simp add: upt_rec)
  from len have "item parts 0 = Inr (parts ! 0)"
    by (auto simp: item_def)
  with bad len show ?thesis
    unfolding u summary_try_def
    by (auto simp: float_at_in_range bnd_def isl_def split: sum.splits)
qed

lemma summary_step:
  "summary_loop (raw # rest) data =
     summary_loop rest
       (if spec_included raw then data(fst (spec_entry raw) \<mapsto> snd (spec_entry raw)) else data)"
proof (cases "py_strip raw = [] \<or> startswith (py_strip raw) ''#''")
  case True
  then show ?thesis by (auto simp: spec_included_def Let_def)
next
  case False
  then have ne: "py_split (py_strip raw) \<noteq> []" by (simp add: split_strip_nonempty)
  then have first: "item (py_split (py_strip raw)) 0 = Inr (py_split (py_strip raw) ! 0)"
    by (simp add: item_def)
  show ?thesis
  proof (cases "spec_included raw")
    case True
    then have "summary_try (py_split (py_strip raw)) = Inr (spec_entry raw)"
      unfolding spec_included_def spec_entry_def Let_def
      by (intro summary_try_parsed) simp_all
    with True False first show ?thesis
      by (simp add: spec_included_def Let_def split: prod.splits)
  next
    case no: False
    show ?thesis
    proof (cases "py_split (py_strip raw) ! 0 = ''SMP'' \<or> \<not> 10 \<le> length (py_split (py_strip raw))")
      case True
      with no False first show ?thesis by (auto simp: Let_def)
    next
      case ok: False
      with no False have "isl (summary_try (py_split (py_strip raw)))"
        by (intro summary_try_failed) (auto simp: spec_included_def Let_def)
      then obtain e where "summary_try (py_split (py_strip raw)) = Inl e"
        by (auto simp: isl_def)
      with no ok False first show ?thesis by (auto simp: Let_def)
    qed
  qed
qed

lemma summary_loop_spec:
  "summary_loop ls data = Inr (data ++ map_of (rev (map spec_entry (filter spec_included ls))))"
proof (induction ls arbitrary: data)
  case Nil
  show ?case by simp
next
  case (Cons raw rest)
  show ?case
    unfolding summary_step Cons.IH
    by (cases "spec_entry raw") (simp add: map_add_upd_left map_add_assoc [symmetric] del: summary_loop.simps)
qed

lemma py_int_err: "py_int s = Inl e \<Longrightarrow> e = ValueError"
  by (auto simp: py_int_def Let_def split: prod.splits if_splits)

lemma results_try_cases:
  assumes len: "10 \<le> length parts"
  shows "results_try parts =
     (if \<not> isl (py_int (parts ! 0)) \<and> \<not> isl (py_float (parts ! 3))
      then Inr (projr (py_int (parts ! 0)), projr (py_float (parts ! 3)))
      else Inl ValueError)"
proof -
  from len have "item parts 0 = Inr (parts ! 0)"
    by (auto simp: item_def)
  with len show ?thesis
    unfolding results_try_def
    by (auto simp: float_at_in_range bnd_def isl_def split: sum.splits
          dest: py_int_err py_float_err)
qed

lemma results_step:
  "results_loop (raw # rest) smp_info =
     results_loop rest
       (if results_included raw
        then smp_info(fst (results_entry raw) \<mapsto> snd (results_entry raw)) else smp_info)"
proof (cases "py_strip raw = [] \<or> startswith (py_strip raw) ''#''")
  case True
  then show ?thesis by (auto simp: results_included_def Let_def)
next
  case False
  then have "py_split (py_strip raw) \<noteq> []" by (simp add: split_strip_nonempty)
  then have first: "item (py_split (py_strip raw)) 0 = Inr (py_split (py_strip raw) ! 0)"
    by (simp add: item_def)
  show ?thesis
  proof (cases "py_split (py_strip raw) ! 0 = ''SMP'' \<or> \<not> 10 \<le> length (py_split (py_strip raw))")
    case True
    with False first show ?thesis by (auto simp: results_included_def Let_def)
  next
    case ok: False
    then have "10 \<le> length (py_split (py_strip raw))" by simp
    note attempt = results_try_cases [OF this]
    from ok False first show ?thesis
      by (simp add: attempt results_included_def results_entry_def Let_def)
  qed
qed

lemma results_loop_spec:
  "results_loop ls smp_info =
     Inr (smp_info ++ map_of (rev (map results_entry (filter results_included ls))))"
proof (induction ls arbitrary: smp_info)
  case Nil
  show ?case by simp
next
  case (Cons raw rest)
  show ?case
    unfolding results_step Cons.IH
    by (cases "results_entry raw") (simp add: map_add_upd_left map_add_assoc [symmetric] del: results_loop.simps)
qed

text \<open>
  Claim C6.  For every summary table file that exists, \<^verbatim>\<open>parse_summary_file\<close> returns
  the mapping built from exactly the lines the specification includes, each with its
  entry, a later line replacing an earlier one with the same key: the mapping is
  \<open>map_of\<close> of the included entries in reverse file order.  In particular the entry of
  an included line that no later included line shares its key with is the value of the
  key.  \<^verbatim>\<open>parse_results_summary\<close> does the same with the key and field 3.
\<close>

theorem load_summary_table_rows:
  assumes given: "fs (Summary env) = Some content"
  shows "parse_summary_file fs env =
           Inr (map_of (rev (map spec_entry (filter spec_included (py_lines content))))) \<and>
         parse_results_summary fs (Summary env) =
           Inr (map_of (rev (map results_entry (filter results_included (py_lines content))))) \<and>
         (\<forall>before raw after.
            py_lines content = before @ raw # after \<and> spec_included raw \<and>
            list_all (\<lambda>l. \<not> (spec_included l \<and> fst (spec_entry l) = fst (spec_entry raw))) after
            \<longrightarrow> (\<exists>table. parse_summary_file fs env = Inr table \<and>
                   table (fst (spec_entry raw)) = Some (snd (spec_entry raw))))"
proof (intro conjI allI impI)
  show eq: "parse_summary_file fs env =
           Inr (map_of (rev (map spec_entry (filter spec_included (py_lines content)))))"
    using given by (simp add: parse_summary_file_def open_read_def summary_loop_spec)
  show "parse_results_summary fs (Summary env) =
           Inr (map_of (rev (map results_entry (filter results_included (py_lines content)))))"
    using given by (simp add: parse_results_summary_def open_read_def results_loop_spec)
  fix before raw after
  assume a: "py_lines content = before @ raw # after \<and> spec_included raw \<and>
            list_all (\<lambda>l. \<not> (spec_included l \<and> fst (spec_entry l) = fst (spec_entry raw))) after"
  let ?k = "fst (spec_entry raw)"
  let ?es = "\<lambda>ls. map spec_entry (filter spec_included ls)"
  from a have "?k \<notin> fst ` set (?es after)"
    by (auto simp: list_all_iff)
  then have "map_of (rev (?es after)) ?k = None"
    by (simp add: map_of_eq_None_iff)
  moreover from a have "rev (?es (py_lines content)) =
      rev (?es after) @ (?k, snd (spec_entry raw)) # rev (?es before)"
    by simp
  ultimately have "map_of (rev (?es (py_lines content))) ?k = Some (snd (spec_entry raw))"
    by (simp add: map_add_def)
  with eq show "\<exists>table. parse_summary_file fs env = Inr table \<and>
                   table (fst (spec_entry raw)) = Some (snd (spec_entry raw))"
    by simp
qed

theorem load_summary_table_rows_witness:
  "\<exists>table. parse_summary_file table_files 1 = Inr table \<and>
     table 4 = Some (Fin (1 / 5), Fin 1000, Fin 51, Fin (3 / 20), Fin (3 / 2), Fin 50000, Fin (1 / 5)) \<and>
     table 5 = None \<and> table 6 = None"
proof -
  let ?raw = "''4 0.2 1000 51.0 0.15 1.5 50000 0.2 0 0\<newline>''"
  let ?before = "[''# results of set 1\<newline>'', ''\<newline>'', ''SMP a b c d e f g h i\<newline>'',
     ''4 0.1 1000 50.0 0.15 1.5 50000 0.2 0 0\<newline>'', ''5 1 2 3\<newline>'',
     ''6 x 1 1 1 1 1 1 1 1\<newline>'']"
  have given: "table_files (Summary 1) = Some table_text"
    by (simp add: table_files_def)
  have lines: "py_lines table_text = ?before @ ?raw # []"
    by code_simp
  have inc: "spec_included ?raw"
    by code_simp
  have entry: "spec_entry ?raw =
      (4, (Fin (1 / 5), Fin 1000, Fin 51, Fin (3 / 20), Fin (3 / 2), Fin 50000, Fin (1 / 5)))"
    by code_simp
  have others: "map spec_included ?before = [False, False, False, True, False, False]"
    by code_simp
  have first: "fst (spec_entry ''4 0.1 1000 50.0 0.15 1.5 50000 0.2 0 0\<newline>'') = 4"
    by code_simp
  note main = load_summary_table_rows [of table_files 1 table_text, OF given]
  have last_one: "list_all (\<lambda>l. \<not> (spec_included l \<and> fst (spec_entry l) = fst (spec_entry ?raw))) []"
    by simp
  from main [THEN conjunct2, THEN conjunct2, rule_format, of ?before ?raw "[]"] lines inc last_one
  have a: "\<exists>table. parse_summary_file table_files 1 = Inr table \<and>
      table 4 = Some (Fin (1 / 5), Fin 1000, Fin 51, Fin (3 / 20), Fin (3 / 2), Fin 50000, Fin (1 / 5))"
    unfolding entry by simp
  from main have "parse_summary_file table_files 1 =
      Inr (map_of (rev (map spec_entry (filter spec_included (?before @ [?raw])))))"
    unfolding lines by simp
  with others inc entry first a show ?thesis
    by auto
qed

section \<open>Properties of the aggregation\<close>

text \<open>On a state that holds the ten lists of the environment, the body of the inner loop
  appends to each list the entry the specification gives, and nothing else changes.\<close>

lemma average_mean: "average xs = Inr (mean xs)"
  by (cases xs) (simp_all add: mean_def average_def truediv_def is_zero_def)

lemma read_time_log_values: "read_time_log fs env smp = Inr (values_of fs env smp)"
proof (cases "fs (TimeLog env smp)")
  case None
  then show ?thesis by (simp add: values_of_def read_time_log_def exists_path_def)
next
  case (Some content)
  obtain P where P: "scan_lines perc_body (py_lines content) [] = Inr P"
    using scan_perc_values [of "py_lines content"] by blast
  obtain N where N: "scan_lines ns_body (py_lines content) [] = Inr N"
    using scan_ns_values [of "py_lines content"] by blast
  from Some P N have "read_time_log fs env smp = Inr (P, N)"
    by (simp add: read_time_log_def exists_path_def parse_ns_file [of fs _ content]
        parse_perc_file [of fs _ content])
  then show ?thesis by (simp add: values_of_def)
qed

lemma parse_summary_file_table:
  "fs (Summary env) \<noteq> None \<Longrightarrow> parse_summary_file fs env = Inr (table_of fs env)"
  by (auto simp: table_of_def parse_summary_file_def open_read_def summary_loop_spec)

lemma cell_ready:
  assumes ready: "\<forall>m. st m env = Some (old m)"
  shows "cell fs summary env smp st =
     Inr (\<lambda>m. (st m)(env \<mapsto> old m @
        [spec_cell (summary (int smp)) (fst (values_of fs env smp)) (snd (values_of fs env smp)) m]))"
proof -
  obtain P N where pn: "values_of fs env smp = (P, N)" by (cases "values_of fs env smp")
  show ?thesis
  proof (cases "summary (int smp)")
    case None
    have "cell fs summary env smp st = Inr (\<lambda>m. (st m)(env \<mapsto> old m @ [spec_cell None P N m]))"
      unfolding cell_def read_time_log_values pn average_mean
      using ready None
      apply (simp add: summary_values_def append_to_def lookup_def)
      apply (rule ext)
      subgoal for m by (cases m) (simp_all add: spec_cell_def fun_eq_iff)
      done
    with None pn show ?thesis by simp
  next
    case (Some row)
    obtain rbt tc pred_ns pred_sec sf total_cs pct
      where row: "row = (rbt, tc, pred_ns, pred_sec, sf, total_cs, pct)"
      by (cases row)
    have "cell fs summary env smp st = Inr (\<lambda>m. (st m)(env \<mapsto> old m @ [spec_cell (Some row) P N m]))"
      unfolding cell_def read_time_log_values pn average_mean
      using ready Some row
      apply (simp add: summary_values_def append_to_def lookup_def)
      apply (rule ext)
      subgoal for m by (cases m) (simp_all add: spec_cell_def fun_eq_iff)
      done
    with Some pn show ?thesis by simp
  qed
qed

lemma smp_loop_ready:
  assumes "\<forall>m. st m env = Some (old m)"
  shows "smp_loop fs summary env smps st =
     Inr (\<lambda>m. (st m)(env \<mapsto> old m @
        map (\<lambda>smp. spec_cell (summary (int smp)) (fst (values_of fs env smp))
                     (snd (values_of fs env smp)) m) smps))"
  using assms
proof (induction smps arbitrary: st old)
  case Nil
  then show ?case by (auto simp: fun_eq_iff)
next
  case (Cons smp rest)
  let ?c = "\<lambda>smp m. spec_cell (summary (int smp)) (fst (values_of fs env smp))
                     (snd (values_of fs env smp)) m"
  let ?st = "\<lambda>m. (st m)(env \<mapsto> old m @ [?c smp m])"
  have step: "cell fs summary env smp st = Inr ?st"
    by (rule cell_ready [of st env old, OF Cons.prems])
  have "\<forall>m. ?st m env = Some (old m @ [?c smp m])" by simp
  then have ih: "smp_loop fs summary env rest ?st =
      Inr (\<lambda>m. (?st m)(env \<mapsto> (old m @ [?c smp m]) @ map (\<lambda>s. ?c s m) rest))"
    by (rule Cons.IH [of ?st "\<lambda>m. old m @ [?c smp m]"])
  have eq: "(\<lambda>m. (?st m)(env \<mapsto> (old m @ [?c smp m]) @ map (\<lambda>s. ?c s m) rest)) =
      (\<lambda>m. (st m)(env \<mapsto> old m @ map (\<lambda>s. ?c s m) (smp # rest)))"
    by (simp add: fun_eq_iff)
  show ?case
    by (simp only: smp_loop.simps step sum.case ih eq)
qed

lemma env_loop_all:
  assumes "\<forall>env\<in>set envs. fs (Summary env) \<noteq> None"
  shows "env_loop fs num_smp envs st =
     Inr (\<lambda>m env. if env \<in> set envs
                   then Some (map (\<lambda>smp. spec_entry_at fs env smp m) [1..<Suc num_smp])
                   else st m env)"
  using assms
proof (induction envs arbitrary: st)
  case Nil
  show ?case by simp
next
  case (Cons env rest)
  then have table: "parse_summary_file fs env = Inr (table_of fs env)"
    by (simp add: parse_summary_file_table)
  have "\<forall>m. init_lists env st m env = Some []"
    by (simp add: init_lists_def)
  from smp_loop_ready [of "init_lists env st" env "\<lambda>m. []" fs "table_of fs env" "[1..<Suc num_smp]", OF this]
  have inner: "smp_loop fs (table_of fs env) env [1..<Suc num_smp] (init_lists env st) =
      Inr (\<lambda>m. (st m)(env \<mapsto> map (\<lambda>smp. spec_entry_at fs env smp m) [1..<Suc num_smp]))"
    by (simp add: init_lists_def spec_entry_at_def)
  from Cons.prems have "\<forall>env\<in>set rest. fs (Summary env) \<noteq> None" by simp
  note rest = Cons.IH [OF this]
  show ?case
    by (simp add: table inner [unfolded One_nat_def] rest fun_eq_iff del: upt_Suc)
qed

lemma collect_all:
  assumes "\<forall>env\<in>{1..num_env}. fs (Summary env) \<noteq> None"
  shows "collect fs num_env num_smp =
     Inr (\<lambda>m env. if 1 \<le> env \<and> env \<le> num_env
                   then Some (map (\<lambda>smp. spec_entry_at fs env smp m) [1..<Suc num_smp])
                   else None)"
proof -
  from assms have "\<forall>env\<in>set [1..<Suc num_env]. fs (Summary env) \<noteq> None" by auto
  from env_loop_all [OF this] show ?thesis
    unfolding collect_def by (auto simp: fun_eq_iff)
qed

lemma env_loop_missing:
  "env \<in> set envs \<Longrightarrow> fs (Summary env) = None \<Longrightarrow>
     env_loop fs num_smp envs st = Inl FileNotFoundError"
proof (induction envs arbitrary: st)
  case Nil
  then show ?case by simp
next
  case (Cons e rest)
  show ?case
  proof (cases "fs (Summary e)")
    case None
    then show ?thesis
      by (simp add: parse_summary_file_def open_read_def)
  next
    case (Some content)
    with Cons.prems have in_rest: "env \<in> set rest" by auto
    from Some have table: "parse_summary_file fs e = Inr (table_of fs e)"
      by (simp add: parse_summary_file_table)
    have "\<forall>m. init_lists e st m e = Some []"
      by (simp add: init_lists_def)
    from smp_loop_ready [of "init_lists e st" e "\<lambda>m. []" fs "table_of fs e" "[1..<Suc num_smp]", OF this]
    obtain st' where "smp_loop fs (table_of fs e) e [1..<Suc num_smp] (init_lists e st) = Inr st'"
      by blast
    with table Cons.IH [OF in_rest Cons.prems(2)] show ?thesis
      by (simp add: One_nat_def [symmetric] del: upt_Suc One_nat_def)
  qed
qed





lemma nth_smp: "1 \<le> smp \<Longrightarrow> smp \<le> n \<Longrightarrow> map f [1..<Suc n] ! (smp - 1) = f smp"
  by (simp add: nth_map nth_upt del: upt_Suc)

lemma set_cell_no_row:
  "smp_data (int smp) = None \<Longrightarrow>
     set_cell fs smp_data i smp (ns, perc) = Inr (ns @ [Fin 0], perc @ [Fin 0])"
  by (simp add: set_cell_def)

lemma values_of_log:
  assumes "parse_ns_per_call_time_log fs (TimeLog env smp) = Inr ns_vals"
    and "parse_percentage_time_log fs (TimeLog env smp) = Inr perc_vals"
  shows "values_of fs env smp = (perc_vals, ns_vals)"
proof -
  from assms(1) have "fs (TimeLog env smp) \<noteq> None"
    by (auto simp: parse_ns_per_call_time_log_def open_read_def split: option.splits)
  with assms show ?thesis
    by (simp add: values_of_def read_time_log_def exists_path_def)
qed

text \<open>
  Claim C7, as amended.  In \<^verbatim>\<open>draw_scaled_merge.py\<close>, when the summary table file of every
  environment exists, take a cell whose table has no row for the SMP value and whose
  time log gives at least one ns-per-call value.  The run ends with matrices that hold,
  at the cell, 0.0 in the seven summary columns, the arithmetic mean of the log's
  ns-per-call values, the arithmetic mean of its percentage values (0.0 when there is
  none), and the mean minus 0.0 as the ns-per-call difference.  In \<^verbatim>\<open>draw_scaled.py\<close>
  the body of \<^verbatim>\<open>main\<close>'s loop appends 0.0 to both lists for such a cell and goes on to
  the next one: it does not read the log.
\<close>

theorem cell_without_summary_row:
  assumes tables: "\<forall>e\<in>{1..num_env}. fs (Summary e) \<noteq> None"
    and env: "1 \<le> env" "env \<le> num_env"
    and smp: "1 \<le> smp" "smp \<le> num_smp"
    and table: "parse_summary_file fs env = Inr summary"
    and no_row: "summary (int smp) = None"
    and ns: "parse_ns_per_call_time_log fs (TimeLog env smp) = Inr ns_vals"
    and retained: "ns_vals \<noteq> []"
    and perc: "parse_percentage_time_log fs (TimeLog env smp) = Inr perc_vals"
  shows "\<exists>st. collect fs num_env num_smp = Inr st \<and>
           (\<forall>m. \<exists>l. st m env = Some l \<and> length l = num_smp \<and>
              l ! (smp - 1) =
                (if m = Avg_real_ns_call then mean ns_vals
                 else if m = Avg_percentage then mean perc_vals
                 else if m = Diff_ns_call then py_sub (mean ns_vals) (Fin 0)
                 else Fin 0)) \<and>
           truediv (py_sum ns_vals) (Fin (of_nat (length ns_vals))) = Inr (mean ns_vals) \<and>
           (perc_vals \<noteq> [] \<longrightarrow>
              truediv (py_sum perc_vals) (Fin (of_nat (length perc_vals))) = Inr (mean perc_vals)) \<and>
           (\<forall>smp_data avg_ns_list avg_perc_list.
              smp_data (int smp) = None \<longrightarrow>
              set_cell fs smp_data env smp (avg_ns_list, avg_perc_list) =
                Inr (avg_ns_list @ [Fin 0], avg_perc_list @ [Fin 0]))"
proof -
  let ?st = "\<lambda>m e. if 1 \<le> e \<and> e \<le> num_env
                   then Some (map (\<lambda>smp. spec_entry_at fs e smp m) [1..<Suc num_smp])
                   else None"
  have run: "collect fs num_env num_smp = Inr ?st"
    by (rule collect_all [OF tables])
  from table have t: "table_of fs env = summary"
    by (simp add: table_of_def)
  have v: "values_of fs env smp = (perc_vals, ns_vals)"
    by (rule values_of_log [OF ns perc])
  have entry: "spec_entry_at fs env smp m =
                (if m = Avg_real_ns_call then mean ns_vals
                 else if m = Avg_percentage then mean perc_vals
                 else if m = Diff_ns_call then py_sub (mean ns_vals) (Fin 0)
                 else Fin 0)" for m
    unfolding spec_entry_at_def t no_row v
    by (cases m) (simp_all add: spec_cell_def)
  have cells: "\<forall>m. \<exists>l. ?st m env = Some l \<and> length l = num_smp \<and>
              l ! (smp - 1) =
                (if m = Avg_real_ns_call then mean ns_vals
                 else if m = Avg_percentage then mean perc_vals
                 else if m = Diff_ns_call then py_sub (mean ns_vals) (Fin 0)
                 else Fin 0)"
    using env nth_smp [OF smp, of "\<lambda>s. spec_entry_at fs env s _"]
    by (simp add: entry del: upt_Suc)
  have m1: "truediv (py_sum ns_vals) (Fin (of_nat (length ns_vals))) = Inr (mean ns_vals)"
    using average_mean [of ns_vals] retained by (simp add: average_def)
  have m2: "perc_vals \<noteq> [] \<longrightarrow>
              truediv (py_sum perc_vals) (Fin (of_nat (length perc_vals))) = Inr (mean perc_vals)"
    using average_mean [of perc_vals] by (auto simp: average_def split: if_splits)
  have skip: "\<forall>smp_data avg_ns_list avg_perc_list.
              smp_data (int smp) = None \<longrightarrow>
              set_cell fs smp_data env smp (avg_ns_list, avg_perc_list) =
                Inr (avg_ns_list @ [Fin 0], avg_perc_list @ [Fin 0])"
    by (simp add: set_cell_no_row)
  from run cells m1 m2 skip show ?thesis by blast
qed

theorem cell_without_summary_row_witness:
  "\<exists>st a p. collect no_row_files 1 1 = Inr st \<and>
     st Avg_real_ns_call 1 = Some a \<and> a ! 0 = Fin (1 / 50000) \<and>
     st Predict_ns_call 1 = Some p \<and> p ! 0 = Fin 0"
proof -
  have tables: "\<forall>e\<in>{1..1}. no_row_files (Summary e) \<noteq> None"
    by (simp add: no_row_files_def)
  have table: "parse_summary_file no_row_files 1 = Inr (table_of no_row_files 1)"
    by (rule parse_summary_file_table) (simp add: no_row_files_def)
  have no_row: "table_of no_row_files 1 (int 1) = None"
    by code_simp
  have ns: "parse_ns_per_call_time_log no_row_files (TimeLog 1 1) =
      Inr [Fin (3 / 100000), Fin (1 / 100000)]"
    by code_simp
  have perc: "parse_percentage_time_log no_row_files (TimeLog 1 1) = Inr [Fin (3 / 5), Fin (2 / 5)]"
    by code_simp
  have m: "mean [Fin (3 / 100000), Fin (1 / 100000)] = Fin (1 / 50000)"
    by code_simp
  from cell_without_summary_row [of 1 no_row_files 1 1 1 "table_of no_row_files 1"
      "[Fin (3 / 100000), Fin (1 / 100000)]" "[Fin (3 / 5), Fin (2 / 5)]",
      OF tables _ _ _ _ table no_row ns _ perc]
  obtain st where st: "collect no_row_files 1 1 = Inr st"
    and cells: "\<forall>m. \<exists>l. st m 1 = Some l \<and> length l = 1 \<and>
              l ! (1 - 1) =
                (if m = Avg_real_ns_call then mean [Fin (3 / 100000), Fin (1 / 100000)]
                 else if m = Avg_percentage then mean [Fin (3 / 5), Fin (2 / 5)]
                 else if m = Diff_ns_call then py_sub (mean [Fin (3 / 100000), Fin (1 / 100000)]) (Fin 0)
                 else Fin 0)"
    by auto
  from cells [rule_format, of Avg_real_ns_call] cells [rule_format, of Predict_ns_call] st m
  show ?thesis by auto
qed

text \<open>
  Claim C7 as stated fails in \<^verbatim>\<open>draw_scaled.py\<close>: the table of the set has no row for
  SMP 1, the log of the cell gives two values to each parser, and the pass records 0.0
  for both averages.
\<close>

theorem per_set_pass_skips_cell:
  "parse_ns_per_call_time_log no_row_files (TimeLog 1 1) = Inr [Fin (3 / 100000), Fin (1 / 100000)] \<and>
   parse_percentage_time_log no_row_files (TimeLog 1 1) = Inr [Fin (3 / 5), Fin (2 / 5)] \<and>
   (case parse_results_summary no_row_files (Summary 1) of Inr d \<Rightarrow> d 1 | Inl e \<Rightarrow> Some NaN) = None \<and>
   set_pass no_row_files 1 1 = Inr ([Fin 0], [Fin 0])"
  by code_simp



text \<open>
  Claim C3 at its failing input.  The table of environment 1 exists and the table of
  environment 2 does not: \<^verbatim>\<open>open\<close> raises in \<^verbatim>\<open>parse_summary_file\<close>, nothing catches the
  error, and the run ends with no matrix at all.  The same with no file at all and the
  script's own counts.
\<close>

theorem missing_summary_table_aborts:
  "collect scenario_files 2 4 = Inl FileNotFoundError \<and>
   collect (\<lambda>p. None) NUM_ENV NUM_SMP = Inl FileNotFoundError \<and>
   set_pass (\<lambda>p. None) 1 NUM_SMP = Inl FileNotFoundError"
proof (intro conjI)
  show "collect scenario_files 2 4 = Inl FileNotFoundError"
    unfolding collect_def
    by (rule env_loop_missing [of 2]) (simp_all add: scenario_files_def)
  show "collect (\<lambda>p. None) NUM_ENV NUM_SMP = Inl FileNotFoundError"
    unfolding collect_def NUM_ENV_def
    by (rule env_loop_missing [of 1]) simp_all
  show "set_pass (\<lambda>p. None) 1 NUM_SMP = Inl FileNotFoundError"
    by (simp add: set_pass_def parse_results_summary_def open_read_def)
qed

text \<open>
  What does hold of the dense grid: when the summary table file of every environment
  exists, whatever the tables and the time logs contain and whichever time logs are
  missing, the run ends with every matrix holding, for every environment, a list with
  one entry per SMP value, the entry the specification gives.
\<close>

theorem dense_matrices:
  assumes "\<forall>env\<in>{1..num_env}. fs (Summary env) \<noteq> None"
  shows "\<exists>st. collect fs num_env num_smp = Inr st \<and>
           (\<forall>m env. 1 \<le> env \<and> env \<le> num_env \<longrightarrow>
              (\<exists>l. st m env = Some l \<and> length l = num_smp \<and>
                   (\<forall>smp. 1 \<le> smp \<and> smp \<le> num_smp \<longrightarrow>
                      l ! (smp - 1) = spec_entry_at fs env smp m)))"
proof -
  let ?st = "\<lambda>m e. if 1 \<le> e \<and> e \<le> num_env
                   then Some (map (\<lambda>smp. spec_entry_at fs e smp m) [1..<Suc num_smp])
                   else None"
  have "collect fs num_env num_smp = Inr ?st"
    by (rule collect_all [OF assms])
  moreover have "\<forall>m env. 1 \<le> env \<and> env \<le> num_env \<longrightarrow>
              (\<exists>l. ?st m env = Some l \<and> length l = num_smp \<and>
                   (\<forall>smp. 1 \<le> smp \<and> smp \<le> num_smp \<longrightarrow>
                      l ! (smp - 1) = spec_entry_at fs env smp m))"
    by (auto simp: nth_smp simp del: upt_Suc)
  ultimately show ?thesis by blast
qed

theorem dense_matrices_witness:
  "\<exists>st l. collect scenario_files 1 4 = Inr st \<and> st Avg_percentage 1 = Some l \<and>
     length l = 4 \<and> l ! 3 = Fin (3 / 5)"
proof -
  have tables: "\<forall>env\<in>{1..1}. scenario_files (Summary env) \<noteq> None"
    by (simp add: scenario_files_def)
  have entry: "spec_entry_at scenario_files 1 4 Avg_percentage = Fin (3 / 5)"
    by code_simp
  from dense_matrices [of 1 scenario_files 4, OF tables]
  obtain st where st: "collect scenario_files 1 4 = Inr st"
    and cells: "\<forall>m env. 1 \<le> env \<and> env \<le> 1 \<longrightarrow>
              (\<exists>l. st m env = Some l \<and> length l = 4 \<and>
                   (\<forall>smp. 1 \<le> smp \<and> smp \<le> 4 \<longrightarrow>
                      l ! (smp - 1) = spec_entry_at scenario_files env smp m))"
    by blast
  from cells [rule_format, of 1 Avg_percentage]
  obtain l where "st Avg_percentage 1 = Some l" "length l = 4"
    "\<forall>smp. 1 \<le> smp \<and> smp \<le> 4 \<longrightarrow> l ! (smp - 1) = spec_entry_at scenario_files 1 smp Avg_percentage"
    by auto
  with st entry show ?thesis
    by (auto dest: spec [of _ 4])
qed

section \<open>Properties of the emulator logs\<close>

lemma ansi_match_no_esc: "c \<noteq> ESC \<Longrightarrow> ansi_match (c # cs) = None"
  by (simp add: ansi_match_def split: list.splits)

lemma remove_no_esc: "ESC \<notin> set s \<Longrightarrow> remove_ansi_codes s = s"
  by (induction s) (auto simp: ansi_match_no_esc)

lemma complete_removed: "complete_escapes s \<Longrightarrow> ESC \<notin> set (remove_ansi_codes s)"
proof (induction s rule: remove_ansi_codes.induct)
  case 1
  show ?case by simp
next
  case (2 c cs)
  show ?case
  proof (cases "ansi_match (c # cs)")
    case None
    with 2 show ?thesis by auto
  next
    case (Some rest)
    with 2 show ?thesis by auto
  qed
qed

lemma remove_twice: "complete_escapes s \<Longrightarrow> remove_ansi_codes (remove_ansi_codes s) = remove_ansi_codes s"
  by (rule remove_no_esc) (rule complete_removed)

text \<open>Texts with complete escapes: those with no \<^verbatim>\<open>ESC\<close> at all, and those built by putting
  a plain character or a whole escape sequence in front of one.\<close>

lemma complete_no_esc: "ESC \<notin> set s \<Longrightarrow> complete_escapes s"
  by (induction s) (auto simp: ansi_match_no_esc)

lemma complete_sequence:
  assumes "\<forall>p\<in>set ps. is_param p"
  shows "complete_escapes (ESC # CHR ''['' # ps @ CHR ''m'' # rest) = complete_escapes rest"
proof -
  have "\<not> is_param CHR ''m''"
    by (simp add: is_param_def is_digit_def code_def)
  with assms have "dropWhile is_param (ps @ CHR ''m'' # rest) = CHR ''m'' # rest"
    by (simp add: dropWhile_append)
  then have "ansi_match (ESC # CHR ''['' # ps @ CHR ''m'' # rest) = Some rest"
    by (simp add: ansi_match_def ansi_tail_def)
  then show ?thesis
    by simp
qed

text \<open>
  Claim C9, as amended.  On every text with complete escapes, removing the codes twice
  gives what removing them once gives.
\<close>

theorem strip_idempotent_on_complete_escapes:
  assumes "complete_escapes s"
  shows "remove_ansi_codes (remove_ansi_codes s) = remove_ansi_codes s"
  using assms by (rule remove_twice)

theorem strip_idempotent_on_complete_escapes_witness:
  "complete_escapes colour_log \<and>
   remove_ansi_codes (remove_ansi_codes colour_log) = remove_ansi_codes colour_log \<and>
   remove_ansi_codes colour_log = ''[SEMU LOG]: Boot time: 3.59699 seconds, called 239937385 times semu_timer_clocksource\<newline>[SEMU LOG]: timer->begin: 29344993606427, real_ticks: 29345227607119, boot_ticks: 29345773402928, offset: -545795809\<newline>''"
proof -
  have c: "complete_escapes colour_log" by code_simp
  have r: "remove_ansi_codes colour_log = ''[SEMU LOG]: Boot time: 3.59699 seconds, called 239937385 times semu_timer_clocksource\<newline>[SEMU LOG]: timer->begin: 29344993606427, real_ticks: 29345227607119, boot_ticks: 29345773402928, offset: -545795809\<newline>''"
    by code_simp
  from strip_idempotent_on_complete_escapes [OF c] c r show ?thesis by simp
qed

text \<open>
  Claim C9 as stated fails: the pass keeps an \<^verbatim>\<open>ESC\<close> that starts no sequence, and what it
  drops after it can leave that \<^verbatim>\<open>ESC\<close> in front of \<^verbatim>\<open>[m\<close>, which a second pass drops.
\<close>

theorem strip_not_idempotent:
  "remove_ansi_codes [ESC, ESC, CHR ''['', CHR ''m'', CHR ''['', CHR ''m''] = [ESC, CHR ''['', CHR ''m''] \<and>
   remove_ansi_codes (remove_ansi_codes [ESC, ESC, CHR ''['', CHR ''m'', CHR ''['', CHR ''m'']) = []"
  by code_simp




text \<open>
  Claim C5 at its failing input.  The boot pattern matches \<^verbatim>\<open>3..5\<close> as the boot time,
  \<^verbatim>\<open>float\<close> raises on it and nothing catches the error: the script ends there.
\<close>

theorem malformed_boot_time_raises:
  "search boot_re bad_boot_log = Some (''3..5'', ''100'') \<and>
   py_float ''3..5'' = Inl ValueError \<and>
   log_metrics bad_boot_log = Inl ValueError \<and>
   log_entry (\<lambda>p. Some bad_boot_log) 1 1 = Inl ValueError"
  by code_simp

section \<open>What never raises\<close>

lemma search_Some: "search pat s = Some r \<Longrightarrow> \<exists>t. pat t = Some r"
  by (induction s) (auto split: option.splits)

lemma run1_digits:
  "run1 is_digit s = Some (g, r) \<Longrightarrow> g \<noteq> [] \<and> (\<forall>c\<in>set g. is_digit c)"
proof -
  assume "run1 is_digit s = Some (g, r)"
  then have g: "g = takeWhile is_digit s" and ne: "g \<noteq> []"
    by (auto simp: run1_def split: if_splits)
  have "\<forall>c\<in>set (takeWhile is_digit s). is_digit c"
    using set_takeWhileD by fast
  with g ne show ?thesis by simp
qed

lemma digitpart_digits: "ds \<noteq> [] \<Longrightarrow> \<forall>c\<in>set ds. is_digit c \<Longrightarrow> digitpart ds"
proof (induction ds rule: digitpart.induct)
  case 1
  then show ?case by simp
next
  case (2 c)
  then show ?case by simp
next
  case (3 c d cs)
  then have "is_digit d" by simp
  then have "d \<noteq> CHR ''_''" by (auto simp: is_digit_def code_def)
  with 3 show ?case by simp
qed

lemma digit_not_space: "is_digit c \<Longrightarrow> \<not> num_space c"
  by (auto simp: is_digit_def num_space_def)

lemma num_strip_id:
  assumes "s \<noteq> []" and "\<not> num_space (hd s)" and "\<not> num_space (last s)"
  shows "num_strip s = s"
proof -
  from assms have a: "dropWhile num_space s = s"
    by (cases s) auto
  from assms have "rev s \<noteq> []" and "\<not> num_space (hd (rev s))"
    by (simp_all add: hd_rev)
  then have "dropWhile num_space (rev s) = rev s"
    by (cases "rev s") auto
  with a show ?thesis by (simp add: num_strip_def)
qed

lemma py_int_digits:
  assumes "ds \<noteq> []" and "\<forall>c\<in>set ds. is_digit c"
  shows "\<exists>v. py_int ds = Inr v" and "\<exists>v. py_int (CHR ''-'' # ds) = Inr v"
proof -
  from assms have h: "is_digit (hd ds)" and l: "is_digit (last ds)"
    by simp_all
  have part: "digitpart ds" by (rule digitpart_digits [OF assms])
  from h have sign: "hd ds \<noteq> CHR ''-''" "hd ds \<noteq> CHR ''+''"
    by (auto simp: is_digit_def code_def)
  have s1: "num_strip ds = ds"
    using assms(1) h l by (intro num_strip_id) (simp_all add: digit_not_space)
  have "\<not> num_space CHR ''-''" by (simp add: num_space_def code_def)
  then have s2: "num_strip (CHR ''-'' # ds) = CHR ''-'' # ds"
    using assms(1) l by (intro num_strip_id) (simp_all add: digit_not_space)
  from assms(1) sign have u: "unsign ds = (False, ds)"
    by (cases ds) (simp_all add: unsign_def)
  show "\<exists>v. py_int ds = Inr v"
    by (simp add: py_int_def s1 u part)
  show "\<exists>v. py_int (CHR ''-'' # ds) = Inr v"
    by (simp add: py_int_def s2 unsign_def part)
qed

lemma offset_re_group:
  assumes "offset_re t = Some g"
  shows "\<exists>v. py_int g = Inr v"
proof -
  from assms obtain r1 where "literal ''offset:'' t = Some r1"
    and rest: "(case dropWhile py_isspace r1 of
          [] \<Rightarrow> None
        | c # cs \<Rightarrow>
            if c = CHR ''-''
            then Option.bind (run1 is_digit cs) (\<lambda>(g, r). Some (c # g))
            else Option.bind (run1 is_digit (c # cs)) (\<lambda>(g, r). Some g)) = Some g"
    unfolding offset_re_def by (auto simp: bind_eq_Some_conv)
  then obtain c cs where d: "dropWhile py_isspace r1 = c # cs"
    by (cases "dropWhile py_isspace r1") auto
  show ?thesis
  proof (cases "c = CHR ''-''")
    case True
    with rest d obtain ds r where "run1 is_digit cs = Some (ds, r)" and g: "g = CHR ''-'' # ds"
      by (auto simp: bind_eq_Some_conv)
    then have "ds \<noteq> [] \<and> (\<forall>c\<in>set ds. is_digit c)" by (auto dest: run1_digits)
    with g show ?thesis using py_int_digits(2) by blast
  next
    case False
    with rest d obtain r where "run1 is_digit (c # cs) = Some (g, r)"
      by (auto simp: bind_eq_Some_conv)
    then have "g \<noteq> [] \<and> (\<forall>c\<in>set g. is_digit c)" by (auto dest: run1_digits)
    then show ?thesis using py_int_digits(1) by blast
  qed
qed

text \<open>
  The offset of a text never raises: the group of the offset pattern is an optional
  minus sign and digits, which \<^verbatim>\<open>int\<close> reads; with no match the offset is 0.
\<close>

theorem offset_never_raises:
  "\<exists>v. offset_of content = Inr v \<and> (search offset_re content = None \<longrightarrow> v = 0)"
proof (cases "search offset_re content")
  case None
  then show ?thesis by (simp add: offset_of_def)
next
  case (Some g)
  from search_Some [of offset_re content g, OF Some]
  obtain t where "offset_re t = Some g" ..
  from offset_re_group [OF this]
  obtain v where "py_int g = Inr v" ..
  with Some show ?thesis by (simp add: offset_of_def)
qed

theorem offset_never_raises_witness:
  "search offset_re ''no such line'' = None \<and> offset_of ''no such line'' = Inr 0 \<and>
   offset_of ''boot_ticks: 29345773402928, offset: -545795809'' = Inr (- 545795809)"
proof -
  have n: "search offset_re ''no such line'' = None" by code_simp
  have v: "offset_of ''boot_ticks: 29345773402928, offset: -545795809'' = Inr (- 545795809)"
    by code_simp
  from offset_never_raises [of "''no such line''"] n v show ?thesis by auto
qed

text \<open>
  The two time-log parsers never raise on a file that exists, whatever its text: every
  error of the body of the \<^verbatim>\<open>try\<close> is an \<^verbatim>\<open>IndexError\<close> or a \<^verbatim>\<open>ValueError\<close>, which
  the \<^verbatim>\<open>except\<close> catches.  On a file that does not exist \<^verbatim>\<open>open\<close> raises.
\<close>

theorem time_log_parsers_never_raise:
  "(fs p = Some content \<longrightarrow>
      (\<exists>ns_values perc_values.
         parse_ns_per_call_time_log fs p = Inr ns_values \<and>
         parse_percentage_time_log fs p = Inr perc_values)) \<and>
   (fs p = None \<longrightarrow>
      parse_ns_per_call_time_log fs p = Inl FileNotFoundError \<and>
      parse_percentage_time_log fs p = Inl FileNotFoundError)"
proof (intro conjI impI)
  assume given: "fs p = Some content"
  obtain N where "scan_lines ns_body (py_lines content) [] = Inr N"
    using scan_ns_values [of "py_lines content"] by blast
  moreover obtain P where "scan_lines perc_body (py_lines content) [] = Inr P"
    using scan_perc_values [of "py_lines content"] by blast
  ultimately show "\<exists>ns_values perc_values.
         parse_ns_per_call_time_log fs p = Inr ns_values \<and>
         parse_percentage_time_log fs p = Inr perc_values"
    by (simp add: parse_ns_file [of fs p content, OF given] parse_perc_file [of fs p content, OF given])
next
  assume "fs p = None"
  then show "parse_ns_per_call_time_log fs p = Inl FileNotFoundError"
    by (simp add: parse_ns_per_call_time_log_def open_read_def)
next
  assume "fs p = None"
  then show "parse_percentage_time_log fs p = Inl FileNotFoundError"
    by (simp add: parse_percentage_time_log_def open_read_def)
qed

theorem time_log_parsers_never_raise_witness:
  "parse_ns_per_call_time_log (\<lambda>p. Some ''diff:\<newline>diff: ,\<newline>diff: 1, total\<newline>diff: 1, total: x\<newline>diff: 0, total: 8\<newline>'') (TimeLog 1 1) = Inr [Fin (1 / 250000)] \<and>
   parse_percentage_time_log (\<lambda>p. Some ''diff:\<newline>diff: ,\<newline>diff: 1, total\<newline>diff: 1, total: x\<newline>diff: 0, total: 8\<newline>'') (TimeLog 1 1) = Inr []"
proof -
  let ?fs = "\<lambda>p::path. Some ''diff:\<newline>diff: ,\<newline>diff: 1, total\<newline>diff: 1, total: x\<newline>diff: 0, total: 8\<newline>''"
  have a: "parse_ns_per_call_time_log ?fs (TimeLog 1 1) = Inr [Fin (1 / 250000)]" by code_simp
  have b: "parse_percentage_time_log ?fs (TimeLog 1 1) = Inr []" by code_simp
  from time_log_parsers_never_raise [of ?fs "TimeLog 1 1"] a b show ?thesis by simp
qed

end
